theory Spec2Isabelle
  imports Main "HOL-Library.Word" "HOL-Library.Sublist"
begin

section \<open>The CM11A controller object (src/CM11A.js)\<close>

text \<open>
  The controller is one JavaScript object: the fields \<open>serial\<close>, \<open>running\<close>,
  \<open>currentTrans\<close>, \<open>transactionQueue\<close>, \<open>timer\<close> and \<open>events\<close>, and the functions
  that read and assign them through \<open>this\<close>. Every function is modelled as a function
  from the object's state to its new state. A \<open>throw\<close>, and the \<open>TypeError\<close> that a
  method call on the initial placeholder \<open>serial: {}\<close> raises, is the \<open>Inl\<close> of a sum.

  What the functions do to the outside (the serial port, the timers of the runtime, the
  registered callbacks, the transaction objects, the console) is appended to a log, in
  the order in which it happens.

  The sources hold two revisions of the file. The later one is modelled; the earlier one
  has no timer (\<open>write\<close> takes the data alone, and there is no \<open>cancelTimer\<close> and no
  \<open>timeout\<close>) and is the same otherwise. One controller object is modelled: the
  functions are run to their end one at a time, as the event loop runs them, and a
  callback of the caller is taken not to call back into the controller.
\<close>

subsection \<open>Values\<close>

type_synonym byte = "8 word"

datatype js_value =
    JUndefined
  | JNull
  | JBoolean bool
  | JNumber int
  | JString string
  | JArray "js_value list"
  | JObject "(string \<times> js_value) list"
  | JFunction nat

datatype error =
    Thrown string
  | TypeError string

subsection \<open>Transactions\<close>

text \<open>
  The controller builds transactions with \<open>transactions.Command(this, code, units, level)\<close>,
  \<open>transactions.StatusRequest(this)\<close>, \<open>transactions.PollResponse(this, readData)\<close>,
  \<open>transactions.SetClock(this)\<close> and \<open>transactions.EepromAddress(this, readData)\<close>;
  a transaction value keeps the constructor and its arguments. The module
  \<open>CM11ATransactions\<close> itself is not among the sources. A transaction object has a
  private progress state that the controller never reads; the value stands for it by
  the messages that \<open>handleMessage\<close> has been given so far (\<open>inbox\<close>).
\<close>

datatype tkind =
    Command js_value js_value js_value
  | StatusRequest
  | PollResponse "byte list"
  | SetClock
  | EepromAddress "byte list"

record trans =
  kind :: tkind
  inbox :: "byte list list"

definition new_trans :: "tkind \<Rightarrow> trans" where
  "new_trans k = \<lparr>kind = k, inbox = []\<rparr>"

text \<open>
  The methods of the controller listed under \<open>// Callback methods\<close> that a transaction
  calls back while it runs: \<open>write\<close>, \<open>cancelTimer\<close>, \<open>notifyUnitStatus\<close>,
  \<open>notifyCM11AStatus\<close>.
\<close>

datatype call =
    Call_write "byte list" "nat option"
  | Call_cancelTimer
  | Call_notifyUnitStatus js_value js_value js_value js_value
  | Call_notifyCM11AStatus js_value

text \<open>
  Modelled from the spec: the module \<open>CM11ATransactions\<close> is missing, so the behaviour of
  its objects is a parameter. \<open>run\<close> "begins the exchange by writing its first frame to
  the channel (via the engine)": it is given by the calls it makes on the controller.
  \<open>handleMessage(bytes) -> bool\<close> "returns whether it consumed/recognized the input":
  it is given by that answer and the calls it makes. Both may depend on everything the
  transaction was given before.
\<close>

record tx_module =
  run :: "trans \<Rightarrow> call list"
  handleMessage :: "trans \<Rightarrow> byte list \<Rightarrow> bool \<times> call list"

text \<open>
  Modelled from the spec: the module \<open>CM11ACodes\<close> is missing; of its table
  \<open>cm11aCodes.rx\<close> the controller reads the three poll markers, which are byte values.
\<close>

record rx_codes =
  POLL_REQUEST :: byte
  POLL_POWER_FAIL :: byte
  POLL_EEPROM_ADDRESS :: byte

subsection \<open>The serial port, the log and the controller's state\<close>

datatype handler = Call_read | Call_HandleError | Call_stopped

record port =
  path :: string
  baudRate :: nat
  listeners :: "(string \<times> handler) list"

datatype effect =
    PortOpened string nat
  | PortWrite "byte list"
  | PortClose
  | SetTimeout nat nat
  | ClearTimeout nat
  | RunCalled trans
  | HandleMessageCalled trans "byte list"
  | Invoked nat "js_value list"
  | ConsoleLog js_value

text \<open>
  \<open>serial = None\<close> is the placeholder \<open>{}\<close> of the object literal, which has no methods.
  \<open>events e = None\<close>: the object \<open>events\<close> has no own property \<open>e\<close>;
  \<open>events e = Some None\<close>: the property holds \<open>undefined\<close>;
  \<open>events e = Some (Some f)\<close>: it holds the function \<open>f\<close>.
  \<open>armed\<close> are the timers of the runtime that are set and have neither fired nor been
  cleared; \<open>next_timer\<close> is the handle that the next \<open>setTimeout\<close> returns.
\<close>

record engine =
  serial :: "port option"
  running :: bool
  currentTrans :: "trans option"
  transactionQueue :: "trans list"
  timer :: "nat option"
  events :: "string \<Rightarrow> nat option option"
  armed :: "nat list"
  next_timer :: nat
  log :: "effect list"

definition NewCm11A :: engine where
  "NewCm11A =
     \<lparr>serial = None, running = False, currentTrans = None, transactionQueue = [],
      timer = None,
      events = [''unitStatus'' \<mapsto> None, ''status'' \<mapsto> None, ''close'' \<mapsto> None],
      armed = [], next_timer = 0, log = []\<rparr>"

subsection \<open>Registration, start and stop\<close>

definition SetEvent :: "string \<Rightarrow> js_value \<Rightarrow> engine \<Rightarrow> error + engine" where
  "SetEvent event callBack s =
     (if events s event = None then Inl (Thrown (''Invalid event: '' @ event))
      else (case callBack of
              JFunction f \<Rightarrow> Inr (s\<lparr>events := (events s)(event \<mapsto> Some f)\<rparr>)
            | _ \<Rightarrow> Inl (Thrown ''Expected function for callBack.'')))"

definition Start :: "string \<Rightarrow> engine \<Rightarrow> bool \<times> engine" where
  "Start device s =
     (let s' =
        (if \<not> running s then
           s\<lparr>serial := Some \<lparr>path = device, baudRate = 4800,
                            listeners = [(''data'', Call_read), (''error'', Call_HandleError),
                                         (''close'', Call_stopped)]\<rparr>,
             running := True,
             log := log s @ [PortOpened device 4800]\<rparr>
         else s)
      in (running s', s'))"

definition serial_close :: "engine \<Rightarrow> error + engine" where
  "serial_close s =
     (case serial s of
        None \<Rightarrow> Inl (TypeError ''serial.close is not a function'')
      | Some p \<Rightarrow> Inr (s\<lparr>log := log s @ [PortClose]\<rparr>))"

definition Stop :: "engine \<Rightarrow> error + engine" where
  "Stop s =
     (case currentTrans s of
        Some t \<Rightarrow> Inr (s\<lparr>running := False\<rparr>)
      | None \<Rightarrow> serial_close s)"

definition Stopped :: "engine \<Rightarrow> engine" where
  "Stopped s =
     (let s1 = s\<lparr>running := False\<rparr>
      in (case events s1 ''close'' of
            Some (Some f) \<Rightarrow> s1\<lparr>log := log s1 @ [Invoked f []]\<rparr>
          | _ \<Rightarrow> s1))"

subsection \<open>Writing, the timer and the notifications\<close>

definition SerialWrite :: "byte list \<Rightarrow> nat option \<Rightarrow> engine \<Rightarrow> error + engine" where
  "SerialWrite data tm s =
     (case serial s of
        None \<Rightarrow> Inl (TypeError ''serial.write is not a function'')
      | Some p \<Rightarrow>
          (let s1 = s\<lparr>log := log s @ [PortWrite data]\<rparr>
           in (case tm of
                 None \<Rightarrow> Inr s1
               | Some ms \<Rightarrow>
                   Inr (s1\<lparr>timer := Some (next_timer s1),
                            armed := armed s1 @ [next_timer s1],
                            next_timer := Suc (next_timer s1),
                            log := log s1 @ [SetTimeout (next_timer s1) ms]\<rparr>))))"

text \<open>The function given to \<open>serial.write\<close>, called when the write is done.\<close>

definition write_done :: "bool \<Rightarrow> engine \<Rightarrow> engine" where
  "write_done err s =
     (if err then s\<lparr>log := log s @ [ConsoleLog (JString ''Error Writing to CM11A.'')]\<rparr>
      else s)"

definition CancelTimer :: "engine \<Rightarrow> engine" where
  "CancelTimer s =
     (case timer s of
        None \<Rightarrow> s
      | Some h \<Rightarrow> s\<lparr>armed := removeAll h (armed s), timer := None,
                    log := log s @ [ClearTimeout h]\<rparr>)"

definition NotifyUnitStatus ::
  "js_value \<Rightarrow> js_value \<Rightarrow> js_value \<Rightarrow> js_value \<Rightarrow> engine \<Rightarrow> engine" where
  "NotifyUnitStatus x10Function houseCode level units s =
     (case events s ''unitStatus'' of
        Some (Some f) \<Rightarrow>
          s\<lparr>log := log s @
             [Invoked f [JObject [(''units'', units), (''x10Function'', x10Function),
                                  (''level'', level)]]]\<rparr>
      | _ \<Rightarrow> s)"

definition NotifyStatus :: "js_value \<Rightarrow> engine \<Rightarrow> engine" where
  "NotifyStatus status s =
     (case events s ''status'' of
        Some (Some f) \<Rightarrow> s\<lparr>log := log s @ [Invoked f [status]]\<rparr>
      | _ \<Rightarrow> s)"

definition HandleError :: "js_value \<Rightarrow> engine \<Rightarrow> engine" where
  "HandleError err s = s\<lparr>log := log s @ [ConsoleLog err]\<rparr>"

subsection \<open>Calls of a transaction on the controller\<close>

fun do_call :: "call \<Rightarrow> engine \<Rightarrow> error + engine" where
  "do_call (Call_write d tm) s = SerialWrite d tm s"
| "do_call Call_cancelTimer s = Inr (CancelTimer s)"
| "do_call (Call_notifyUnitStatus f h l u) s = Inr (NotifyUnitStatus f h l u s)"
| "do_call (Call_notifyCM11AStatus st) s = Inr (NotifyStatus st s)"

fun do_calls :: "call list \<Rightarrow> engine \<Rightarrow> error + engine" where
  "do_calls [] s = Inr s"
| "do_calls (c # cs) s =
     (case do_call c s of Inl e \<Rightarrow> Inl e | Inr s' \<Rightarrow> do_calls cs s')"

text \<open>\<open>t.run()\<close>: the call is logged, then the transaction makes its calls.\<close>

definition trans_run :: "tx_module \<Rightarrow> trans \<Rightarrow> engine \<Rightarrow> error + engine" where
  "trans_run tx t s = do_calls (run tx t) (s\<lparr>log := log s @ [RunCalled t]\<rparr>)"

text \<open>
  \<open>this.currentTrans.handleMessage(bytes)\<close>: the call is logged, the transaction object
  (which is the current one) remembers the message, makes its calls, and answers.
\<close>

definition trans_handleMessage ::
  "tx_module \<Rightarrow> trans \<Rightarrow> byte list \<Rightarrow> engine \<Rightarrow> error + (bool \<times> engine)" where
  "trans_handleMessage tx t bytes s =
     (case do_calls (snd (handleMessage tx t bytes))
             (s\<lparr>currentTrans := Some (t\<lparr>inbox := inbox t @ [bytes]\<rparr>),
                log := log s @ [HandleMessageCalled t bytes]\<rparr>) of
        Inl e \<Rightarrow> Inl e
      | Inr s' \<Rightarrow> Inr (fst (handleMessage tx t bytes), s'))"

subsection \<open>The transaction queue\<close>

definition RunTransaction :: "tx_module \<Rightarrow> trans \<Rightarrow> engine \<Rightarrow> error + engine" where
  "RunTransaction tx t s =
     (if running s then
        (case currentTrans s of
           None \<Rightarrow> trans_run tx t (s\<lparr>currentTrans := Some t\<rparr>)
         | Some c \<Rightarrow> Inr (s\<lparr>transactionQueue := transactionQueue s @ [t]\<rparr>))
      else Inr s)"

definition RunQueuedTransaction :: "tx_module \<Rightarrow> engine \<Rightarrow> error + engine" where
  "RunQueuedTransaction tx s =
     (let s1 = s\<lparr>currentTrans := None\<rparr>
      in if running s1 then
           (case transactionQueue s1 of
              [] \<Rightarrow> Inr s1
            | t # rest \<Rightarrow> RunTransaction tx t (s1\<lparr>transactionQueue := rest\<rparr>))
         else serial_close s1)"

text \<open>
  The two functions passed to \<open>run().then\<close>: the first is called when the promise of the
  transaction is fulfilled, the second when it is rejected.
\<close>

datatype outcome = Fulfilled | Rejected

definition run_settled :: "tx_module \<Rightarrow> outcome \<Rightarrow> engine \<Rightarrow> error + engine" where
  "run_settled tx out s =
     (case out of
        Fulfilled \<Rightarrow> RunQueuedTransaction tx s
      | Rejected \<Rightarrow> RunQueuedTransaction tx s)"

subsection \<open>Reading and the timeout\<close>

text \<open>
  The first half of \<open>SerialRead\<close>: \<open>usedBuffer\<close> starts as \<open>false\<close> and, when there is a
  current transaction, becomes the answer of its \<open>handleMessage\<close>.
\<close>

definition offer :: "tx_module \<Rightarrow> byte list \<Rightarrow> engine \<Rightarrow> error + (bool \<times> engine)" where
  "offer tx readData s =
     (case currentTrans s of
        None \<Rightarrow> Inr (False, s)
      | Some t \<Rightarrow> trans_handleMessage tx t readData s)"

definition SerialRead :: "rx_codes \<Rightarrow> tx_module \<Rightarrow> byte list \<Rightarrow> engine \<Rightarrow> error + engine" where
  "SerialRead codes tx readData s =
     (if length readData > 0 then
        (case offer tx readData s of
           Inl e \<Rightarrow> Inl e
         | Inr (usedBuffer, s1) \<Rightarrow>
             (if \<not> usedBuffer then
                (if hd readData = POLL_REQUEST codes then
                   RunTransaction tx (new_trans (PollResponse readData)) s1
                 else if hd readData = POLL_POWER_FAIL codes then
                   RunTransaction tx (new_trans SetClock) s1
                 else if hd readData = POLL_EEPROM_ADDRESS codes then
                   RunTransaction tx (new_trans (EepromAddress readData)) s1
                 else Inr s1)
              else Inr s1))
      else Inr s)"

definition Timeout :: "tx_module \<Rightarrow> engine \<Rightarrow> error + engine" where
  "Timeout tx s =
     (case currentTrans s of
        None \<Rightarrow> Inr s
      | Some t \<Rightarrow>
          (case trans_handleMessage tx t [] s of
             Inl e \<Rightarrow> Inl e
           | Inr (used, s') \<Rightarrow> Inr s'))"

subsection \<open>What happens to the controller, one event at a time\<close>

text \<open>
  The caller's API (\<open>on\<close>, \<open>start\<close>, \<open>stop\<close>, and \<open>turnOn\<close>, \<open>turnOff\<close>, \<open>dim\<close>,
  \<open>bright\<close>, \<open>status\<close>, each of which builds a transaction and passes it to
  \<open>runTransaction\<close>), the signals of the port for which \<open>Start\<close> registered a listener,
  the callback given to \<open>serial.write\<close>, a timer that fires, and the promise of the current
  transaction that settles.
\<close>

datatype event =
    E_on string js_value
  | E_start string
  | E_stop
  | E_submit trans
  | E_data "byte list"
  | E_error js_value
  | E_close
  | E_written bool
  | E_timer nat
  | E_settled outcome

definition listens :: "engine \<Rightarrow> string \<Rightarrow> handler \<Rightarrow> bool" where
  "listens s name h =
     (case serial s of None \<Rightarrow> False | Some p \<Rightarrow> (name, h) \<in> set (listeners p))"

fun step :: "rx_codes \<Rightarrow> tx_module \<Rightarrow> event \<Rightarrow> engine \<Rightarrow> error + engine" where
  "step codes tx (E_on e cb) s = SetEvent e cb s"
| "step codes tx (E_start d) s = Inr (snd (Start d s))"
| "step codes tx E_stop s = Stop s"
| "step codes tx (E_submit t) s = RunTransaction tx t s"
| "step codes tx (E_data d) s =
     (if listens s ''data'' Call_read then SerialRead codes tx d s else Inr s)"
| "step codes tx (E_error e) s =
     (if listens s ''error'' Call_HandleError then Inr (HandleError e s) else Inr s)"
| "step codes tx E_close s =
     (if listens s ''close'' Call_stopped then Inr (Stopped s) else Inr s)"
| "step codes tx (E_written err) s = Inr (write_done err s)"
| "step codes tx (E_timer h) s =
     (if h \<in> set (armed s) then Timeout tx (s\<lparr>armed := removeAll h (armed s)\<rparr>)
      else Inr s)"
| "step codes tx (E_settled out) s = run_settled tx out s"

fun exec :: "rx_codes \<Rightarrow> tx_module \<Rightarrow> event list \<Rightarrow> engine \<Rightarrow> error + engine" where
  "exec codes tx [] s = Inr s"
| "exec codes tx (ev # evs) s =
     (case step codes tx ev s of Inl e \<Rightarrow> Inl e | Inr s' \<Rightarrow> exec codes tx evs s')"

text \<open>The transactions whose \<open>run\<close> was called, in the order of the calls.\<close>

fun started :: "effect list \<Rightarrow> trans list" where
  "started [] = []"
| "started (RunCalled t # l) = t # started l"
| "started (_ # l) = started l"



text \<open>Every event but \<open>start\<close>.\<close>

fun no_start :: "event \<Rightarrow> bool" where
  "no_start (E_start d) = False"
| "no_start _ = True"

subsection \<open>Predicates on states\<close>

text \<open>The names of the own properties of the object \<open>events\<close>, as the object literal lists them.\<close>

definition event_names :: "string set" where
  "event_names = {''unitStatus'', ''status'', ''close''}"

text \<open>
  The controller is running on a port, and transactions wait only behind a current
  one. A new controller is in such a state after \<open>start\<close>, and the events of normal
  operation keep it there.
\<close>

definition steady :: "engine \<Rightarrow> bool" where
  "steady s =
     (running s \<and> serial s \<noteq> None \<and> (currentTrans s \<noteq> None \<or> transactionQueue s = []))"

text \<open>What a call of a transaction on the controller leaves as it is.\<close>

definition frame :: "engine \<Rightarrow> engine \<Rightarrow> bool" where
  "frame s s' =
     (running s' = running s \<and> currentTrans s' = currentTrans s \<and>
      transactionQueue s' = transactionQueue s \<and> serial s' = serial s \<and>
      events s' = events s \<and> (\<exists>l. log s' = log s @ l \<and> started l = []))"

text \<open>
  Every timer that is armed is the one whose handle is in the slot \<open>timer\<close>; so at most
  one is armed.
\<close>

definition timer_tracked :: "engine \<Rightarrow> bool" where
  "timer_tracked s = (armed s = [] \<or> map Some (armed s) = [timer s])"

text \<open>
  A sequence of calls in which every \<open>write\<close> that arms a timer comes after a
  \<open>cancelTimer\<close>, with no other arming \<open>write\<close> between the two. The flag says whether
  such a \<open>cancelTimer\<close> has already been made.
\<close>

fun disciplined :: "bool \<Rightarrow> call list \<Rightarrow> bool" where
  "disciplined c [] = True"
| "disciplined c (Call_cancelTimer # cs) = disciplined True cs"
| "disciplined c (Call_write d None # cs) = disciplined c cs"
| "disciplined c (Call_write d (Some ms) # cs) = (c \<and> disciplined False cs)"
| "disciplined c (Call_notifyUnitStatus f h l u # cs) = disciplined c cs"
| "disciplined c (Call_notifyCM11AStatus st # cs) = disciplined c cs"

definition tx_disciplined :: "tx_module \<Rightarrow> bool" where
  "tx_disciplined tx =
     ((\<forall>t. disciplined False (run tx t)) \<and>
      (\<forall>t d. disciplined False (snd (handleMessage tx t d))))"

text \<open>
  What holds of every state that the controller reaches from \<open>NewCm11A\<close>: the object
  \<open>events\<close> has its three properties; without a port the controller is not running
  and has no transactions; a port has the three listeners that \<open>Start\<close> registers.
\<close>

definition wired :: "engine \<Rightarrow> bool" where
  "wired s =
     (dom (events s) = event_names \<and>
      (serial s = None \<longrightarrow>
         \<not> running s \<and> currentTrans s = None \<and> transactionQueue s = []) \<and>
      (\<forall>p. serial s = Some p \<longrightarrow>
         listeners p = [(''data'', Call_read), (''error'', Call_HandleError),
                        (''close'', Call_stopped)]))"

subsection \<open>Example values\<close>

definition example_tx :: tx_module where
  "example_tx =
     \<lparr>run = (\<lambda>t. [Call_write [4, 102] (Some 1000)]),
      handleMessage = (\<lambda>t bytes. (bytes = [0], [Call_cancelTimer]))\<rparr>"

definition example_codes :: rx_codes where
  "example_codes = \<lparr>POLL_REQUEST = 90, POLL_POWER_FAIL = 165, POLL_EEPROM_ADDRESS = 91\<rparr>"

definition cmd_on :: trans where
  "cmd_on = new_trans (Command (JNumber 2) (JArray [JString ''A1'']) JUndefined)"

definition cmd_off :: trans where
  "cmd_off = new_trans (Command (JNumber 3) (JArray [JString ''A1'']) JUndefined)"

definition started_engine :: engine where
  "started_engine = snd (Start ''/dev/ttyUSB0'' NewCm11A)"

definition busy_engine :: engine where
  "busy_engine =
     started_engine\<lparr>currentTrans := Some cmd_on, timer := Some 0, armed := [0],
       next_timer := 1,
       log := [PortOpened ''/dev/ttyUSB0'' 4800, RunCalled cmd_on, PortWrite [4, 102],
               SetTimeout 0 1000]\<rparr>"

definition queued_engine :: engine where
  "queued_engine = busy_engine\<lparr>transactionQueue := [cmd_off]\<rparr>"

definition poll_chunk :: "byte list" where
  "poll_chunk = [90]"

definition noise_chunk :: "byte list" where
  "noise_chunk = [17, 90]"

definition listening_engine :: engine where
  "listening_engine =
     started_engine\<lparr>events := (events started_engine)(''unitStatus'' \<mapsto> Some 1)\<rparr>"

definition acked_engine :: engine where
  "acked_engine =
     busy_engine\<lparr>currentTrans := Some (cmd_on\<lparr>inbox := [[0]]\<rparr>), timer := None, armed := [],
       log := log busy_engine @ [HandleMessageCalled cmd_on [0], ClearTimeout 0]\<rparr>"

definition polled_engine :: engine where
  "polled_engine =
     busy_engine\<lparr>currentTrans := Some (cmd_on\<lparr>inbox := [poll_chunk]\<rparr>), timer := None,
       armed := [],
       log := log busy_engine @ [HandleMessageCalled cmd_on poll_chunk, ClearTimeout 0]\<rparr>"

definition cmd_status :: trans where
  "cmd_status = new_trans StatusRequest"

definition careful_tx :: tx_module where
  "careful_tx =
     \<lparr>run = (\<lambda>t. [Call_cancelTimer, Call_write [4, 102] (Some 1000)]),
      handleMessage = (\<lambda>t bytes.
        (bytes = [0],
         if bytes = [] then [Call_cancelTimer, Call_write [4, 102] (Some 1000)]
         else [Call_cancelTimer]))\<rparr>"

definition retried_engine :: engine where
  "retried_engine =
     busy_engine\<lparr>currentTrans := Some (cmd_on\<lparr>inbox := [[]]\<rparr>), timer := Some 1,
       armed := [1], next_timer := 2,
       log := log busy_engine @
         [HandleMessageCalled cmd_on [], ClearTimeout 0, PortWrite [4, 102],
          SetTimeout 1 1000]\<rparr>"

section \<open>Auxiliary facts\<close>

lemmas example_defs =
  started_engine_def busy_engine_def queued_engine_def NewCm11A_def example_tx_def
  example_codes_def cmd_on_def cmd_off_def new_trans_def

lemmas engine_defs =
  Start_def Stop_def Stopped_def serial_close_def SetEvent_def RunTransaction_def
  RunQueuedTransaction_def run_settled_def trans_run_def trans_handleMessage_def offer_def
  SerialRead_def SerialWrite_def CancelTimer_def Timeout_def NotifyUnitStatus_def
  NotifyStatus_def HandleError_def write_done_def listens_def

lemma examples_reached:
  "exec example_codes example_tx [E_start ''/dev/ttyUSB0'', E_submit cmd_on] NewCm11A =
     Inr busy_engine"
  "step example_codes example_tx (E_submit cmd_off) busy_engine = Inr queued_engine"
  by (simp_all add: example_defs engine_defs)

lemma Start_steady: "steady (snd (Start device NewCm11A))"
  by (simp add: steady_def Start_def NewCm11A_def)

lemma dom_events_New: "dom (events NewCm11A) = event_names"
  by (auto simp: NewCm11A_def event_names_def split: if_splits)

lemma started_append: "started (a @ b) = started a @ started b"
  by (induction a rule: started.induct) simp_all

lemma frame_refl: "frame s s"
  by (simp add: frame_def)

lemma frame_trans: "frame s s1 \<Longrightarrow> frame s1 s2 \<Longrightarrow> frame s s2"
  by (auto simp: frame_def started_append)

lemma SerialWrite_frame: "SerialWrite d tm s = Inr s' \<Longrightarrow> frame s s'"
  by (auto simp: SerialWrite_def frame_def Let_def split: option.splits)

lemma CancelTimer_frame: "frame s (CancelTimer s)"
  by (auto simp: CancelTimer_def frame_def split: option.splits)

lemma NotifyUnitStatus_frame: "frame s (NotifyUnitStatus f h l u s)"
  by (auto simp: NotifyUnitStatus_def frame_def split: option.splits)

lemma NotifyStatus_frame: "frame s (NotifyStatus st s)"
  by (auto simp: NotifyStatus_def frame_def split: option.splits)

lemma do_call_frame: "do_call c s = Inr s' \<Longrightarrow> frame s s'"
  by (cases c)
     (auto simp: SerialWrite_frame CancelTimer_frame NotifyUnitStatus_frame NotifyStatus_frame)

lemma do_calls_frame: "do_calls cs s = Inr s' \<Longrightarrow> frame s s'"
proof (induction cs arbitrary: s)
  case Nil
  then show ?case by (simp add: frame_refl)
next
  case (Cons c cs)
  then obtain s1 where c: "do_call c s = Inr s1" and r: "do_calls cs s1 = Inr s'"
    by (auto split: sum.splits)
  from do_call_frame [OF c] Cons.IH [OF r] show ?case by (rule frame_trans)
qed

lemma SerialWrite_total: "serial s \<noteq> None \<Longrightarrow> \<exists>s'. SerialWrite d tm s = Inr s'"
  by (auto simp: SerialWrite_def Let_def split: option.splits)

lemma do_call_total: "serial s \<noteq> None \<Longrightarrow> \<exists>s'. do_call c s = Inr s'"
  by (cases c) (auto simp: SerialWrite_total)

lemma do_calls_total: "serial s \<noteq> None \<Longrightarrow> \<exists>s'. do_calls cs s = Inr s'"
proof (induction cs arbitrary: s)
  case Nil
  then show ?case by simp
next
  case (Cons c cs)
  from do_call_total [OF Cons.prems] obtain s1 where c: "do_call c s = Inr s1" by blast
  from do_call_frame [OF c] Cons.prems have "serial s1 \<noteq> None" by (simp add: frame_def)
  from Cons.IH [OF this] c show ?case by auto
qed

lemma trans_run_total:
  "serial s \<noteq> None \<Longrightarrow> \<exists>s'. trans_run tx t s = Inr s'"
  by (simp add: trans_run_def do_calls_total)

lemma trans_run_effect:
  assumes "trans_run tx t s = Inr s'"
  shows "running s' = running s \<and> currentTrans s' = currentTrans s \<and>
         transactionQueue s' = transactionQueue s \<and> serial s' = serial s \<and>
         events s' = events s \<and>
         (\<exists>l. log s' = log s @ RunCalled t # l \<and> started l = [])"
  using do_calls_frame [OF assms [unfolded trans_run_def]]
  by (auto simp: frame_def)

lemma trans_handleMessage_total:
  "serial s \<noteq> None \<Longrightarrow> \<exists>u s'. trans_handleMessage tx t d s = Inr (u, s')"
proof -
  assume a: "serial s \<noteq> None"
  let ?s0 = "s\<lparr>currentTrans := Some (t\<lparr>inbox := inbox t @ [d]\<rparr>),
               log := log s @ [HandleMessageCalled t d]\<rparr>"
  from a have "serial ?s0 \<noteq> None" by simp
  from do_calls_total [OF this] obtain s' where
    "do_calls (snd (handleMessage tx t d)) ?s0 = Inr s'" by blast
  then show ?thesis by (simp add: trans_handleMessage_def)
qed

lemma trans_handleMessage_effect:
  assumes "trans_handleMessage tx t d s = Inr (u, s')"
  shows "u = fst (handleMessage tx t d) \<and>
         running s' = running s \<and>
         currentTrans s' = Some (t\<lparr>inbox := inbox t @ [d]\<rparr>) \<and>
         transactionQueue s' = transactionQueue s \<and> serial s' = serial s \<and>
         events s' = events s \<and>
         (\<exists>l. log s' = log s @ HandleMessageCalled t d # l \<and> started l = [])"
proof -
  let ?s0 = "s\<lparr>currentTrans := Some (t\<lparr>inbox := inbox t @ [d]\<rparr>),
               log := log s @ [HandleMessageCalled t d]\<rparr>"
  from assms have c: "do_calls (snd (handleMessage tx t d)) ?s0 = Inr s'"
    and u: "u = fst (handleMessage tx t d)"
    by (auto simp: trans_handleMessage_def split: sum.splits)
  from do_calls_frame [OF c] u show ?thesis by (auto simp: frame_def)
qed









lemma example_fields:
  "running queued_engine" "serial queued_engine \<noteq> None"
  "transactionQueue queued_engine = [cmd_off]"
  "running busy_engine" "transactionQueue busy_engine = []"
  "serial busy_engine \<noteq> None" "currentTrans busy_engine = Some cmd_on"
  "steady started_engine" "running started_engine" "serial started_engine \<noteq> None"
  "currentTrans started_engine = None" "transactionQueue started_engine = []"
  "log started_engine = [PortOpened ''/dev/ttyUSB0'' 4800]"
  by (simp_all add: example_defs Start_def steady_def)

lemmas more_example_defs =
  poll_chunk_def noise_chunk_def listening_engine_def acked_engine_def polled_engine_def
  cmd_status_def

lemma offer_effect:
  assumes "offer tx d s = Inr (u, s')"
  shows "running s' = running s \<and> transactionQueue s' = transactionQueue s \<and>
         serial s' = serial s \<and> events s' = events s"
proof (cases "currentTrans s")
  case None
  with assms show ?thesis by (simp add: offer_def)
next
  case (Some t)
  with assms have "trans_handleMessage tx t d s = Inr (u, s')" by (simp add: offer_def)
  from trans_handleMessage_effect [OF this] show ?thesis by simp
qed

lemma RunTransaction_running:
  assumes "RunTransaction tx t s = Inr s'"
  shows "running s' = running s"
proof (cases "running s \<and> currentTrans s = None")
  case True
  with assms have "trans_run tx t (s\<lparr>currentTrans := Some t\<rparr>) = Inr s'"
    by (simp add: RunTransaction_def)
  from trans_run_effect [OF this] show ?thesis by simp
next
  case False
  with assms show ?thesis
    by (auto simp: RunTransaction_def split: if_splits option.splits)
qed

lemma RunTransaction_idle:
  assumes "running s" and "currentTrans s = None" and "serial s \<noteq> None"
  shows "\<exists>s' l. RunTransaction tx t s = Inr s' \<and> currentTrans s' = Some t \<and>
           log s' = log s @ RunCalled t # l \<and> started l = [] \<and>
           transactionQueue s' = transactionQueue s \<and> running s'"
proof -
  from assms obtain s' where r: "trans_run tx t (s\<lparr>currentTrans := Some t\<rparr>) = Inr s'"
    using trans_run_total [of "s\<lparr>currentTrans := Some t\<rparr>" tx t] by auto
  from trans_run_effect [OF r] assms r show ?thesis
    by (auto simp: RunTransaction_def)
qed

lemma RunQueuedTransaction_running:
  assumes "RunQueuedTransaction tx s = Inr s'"
  shows "running s' = running s"
proof (cases "running s")
  case True
  show ?thesis
  proof (cases "transactionQueue s")
    case Nil
    with True assms show ?thesis by (auto simp: RunQueuedTransaction_def Let_def)
  next
    case (Cons t rest)
    with True assms have
      "RunTransaction tx t (s\<lparr>currentTrans := None, transactionQueue := rest\<rparr>) = Inr s'"
      by (simp add: RunQueuedTransaction_def Let_def)
    from RunTransaction_running [OF this] show ?thesis by simp
  qed
next
  case False
  with assms show ?thesis
    by (auto simp: RunQueuedTransaction_def Let_def serial_close_def split: option.splits)
qed

lemma SerialRead_running:
  assumes "SerialRead codes tx d s = Inr s'"
  shows "running s' = running s"
proof (cases "d = []")
  case True
  with assms show ?thesis by (simp add: SerialRead_def)
next
  case False
  with assms obtain u s1 where o: "offer tx d s = Inr (u, s1)"
    by (auto simp: SerialRead_def split: sum.splits)
  from offer_effect [OF o] have r: "running s1 = running s" by simp
  from assms False o have "s' = s1 \<or> (\<exists>t. RunTransaction tx t s1 = Inr s')"
    by (auto simp: SerialRead_def split: if_splits)
  with r RunTransaction_running show ?thesis by auto
qed

lemma Timeout_running:
  assumes "Timeout tx s = Inr s'"
  shows "running s' = running s"
proof (cases "currentTrans s")
  case None
  with assms show ?thesis by (simp add: Timeout_def)
next
  case (Some t)
  with assms obtain u where "trans_handleMessage tx t [] s = Inr (u, s')"
    by (auto simp: Timeout_def split: sum.splits)
  from trans_handleMessage_effect [OF this] show ?thesis by simp
qed

lemma tracked_cong:
  "timer s' = timer s \<Longrightarrow> armed s' = armed s \<Longrightarrow> timer_tracked s' = timer_tracked s"
  by (simp add: timer_tracked_def)

lemma SerialWrite_timer:
  assumes "SerialWrite d tm s = Inr s'"
  shows "tm = None \<Longrightarrow> timer s' = timer s \<and> armed s' = armed s"
    and "tm = Some ms \<Longrightarrow> timer s' = Some (next_timer s) \<and> armed s' = armed s @ [next_timer s]"
  using assms by (auto simp: SerialWrite_def Let_def split: option.splits)

lemma CancelTimer_timer:
  "timer (CancelTimer s) = None"
  "armed (CancelTimer s) = (case timer s of None \<Rightarrow> armed s | Some h \<Rightarrow> removeAll h (armed s))"
  by (simp_all add: CancelTimer_def split: option.splits)

lemma CancelTimer_tracked: "timer_tracked s \<Longrightarrow> timer_tracked (CancelTimer s)"
  by (auto simp: timer_tracked_def CancelTimer_def split: option.splits)

lemma Notify_timer:
  "timer (NotifyUnitStatus f h l u s) = timer s" "armed (NotifyUnitStatus f h l u s) = armed s"
  "timer (NotifyStatus st s) = timer s" "armed (NotifyStatus st s) = armed s"
  by (simp_all add: NotifyUnitStatus_def NotifyStatus_def split: option.splits)

lemma do_calls_tracked:
  assumes "timer_tracked s" and "c \<longrightarrow> timer s = None" and "disciplined c cs"
    and "do_calls cs s = Inr s'"
  shows "timer_tracked s'"
  using assms
proof (induction cs arbitrary: c s)
  case Nil
  then show ?case by simp
next
  case (Cons a cs)
  from Cons.prems(4) obtain s1 where a: "do_call a s = Inr s1" and r: "do_calls cs s1 = Inr s'"
    by (auto split: sum.splits)
  show ?case
  proof (cases a)
    case (Call_write d tm)
    show ?thesis
    proof (cases tm)
      case None
      with Call_write a have w: "SerialWrite d None s = Inr s1" by simp
      from SerialWrite_timer(1) [OF w] have e: "timer s1 = timer s" "armed s1 = armed s"
        by simp_all
      with Cons.prems(1) have t1: "timer_tracked s1" by (simp add: timer_tracked_def)
      from Cons.prems(2) e have c1: "c \<longrightarrow> timer s1 = None" by simp
      from Cons.prems(3) Call_write None have "disciplined c cs" by simp
      from Cons.IH [OF t1 c1 this r] show ?thesis .
    next
      case (Some ms)
      with Call_write a have w: "SerialWrite d (Some ms) s = Inr s1" by simp
      from Cons.prems(3) Call_write Some have c: c and d: "disciplined False cs" by simp_all
      from c Cons.prems(1,2) have "armed s = []" by (auto simp: timer_tracked_def)
      with SerialWrite_timer(2) [OF w, of ms] have t1: "timer_tracked s1"
        by (simp add: timer_tracked_def)
      from Cons.IH [OF t1 _ d r] show ?thesis by simp
    qed
  next
    case Call_cancelTimer
    with a have s1: "s1 = CancelTimer s" by simp
    with Cons.prems(1) have t1: "timer_tracked s1" by (simp add: CancelTimer_tracked)
    from s1 have c1: "True \<longrightarrow> timer s1 = None" by (simp add: CancelTimer_timer)
    from Cons.prems(3) Call_cancelTimer have "disciplined True cs" by simp
    from Cons.IH [OF t1 c1 this r] show ?thesis .
  next
    case (Call_notifyUnitStatus f h l u)
    with a have s1: "s1 = NotifyUnitStatus f h l u s" by simp
    then have e: "timer s1 = timer s" "armed s1 = armed s" by (simp_all add: Notify_timer)
    with Cons.prems(1) have t1: "timer_tracked s1" by (simp add: timer_tracked_def)
    from Cons.prems(2) e have c1: "c \<longrightarrow> timer s1 = None" by simp
    from Cons.prems(3) Call_notifyUnitStatus have "disciplined c cs" by simp
    from Cons.IH [OF t1 c1 this r] show ?thesis .
  next
    case (Call_notifyCM11AStatus st)
    with a have s1: "s1 = NotifyStatus st s" by simp
    then have e: "timer s1 = timer s" "armed s1 = armed s" by (simp_all add: Notify_timer)
    with Cons.prems(1) have t1: "timer_tracked s1" by (simp add: timer_tracked_def)
    from Cons.prems(2) e have c1: "c \<longrightarrow> timer s1 = None" by simp
    from Cons.prems(3) Call_notifyCM11AStatus have "disciplined c cs" by simp
    from Cons.IH [OF t1 c1 this r] show ?thesis .
  qed
qed

lemma trans_run_tracked:
  assumes "timer_tracked s" and "tx_disciplined tx" and "trans_run tx t s = Inr s'"
  shows "timer_tracked s'"
proof -
  let ?s0 = "s\<lparr>log := log s @ [RunCalled t]\<rparr>"
  from assms(1) have t0: "timer_tracked ?s0" by (simp add: timer_tracked_def)
  from assms(2) have d: "disciplined False (run tx t)" by (simp add: tx_disciplined_def)
  from assms(3) have r: "do_calls (run tx t) ?s0 = Inr s'" by (simp add: trans_run_def)
  from do_calls_tracked [OF t0 _ d r] show ?thesis by simp
qed

lemma handle_tracked:
  assumes "timer_tracked s" and "tx_disciplined tx"
    and "trans_handleMessage tx t d s = Inr (u, s')"
  shows "timer_tracked s'"
proof -
  let ?s0 = "s\<lparr>currentTrans := Some (t\<lparr>inbox := inbox t @ [d]\<rparr>),
               log := log s @ [HandleMessageCalled t d]\<rparr>"
  from assms(1) have t0: "timer_tracked ?s0" by (simp add: timer_tracked_def)
  from assms(2) have d: "disciplined False (snd (handleMessage tx t d))"
    by (simp add: tx_disciplined_def)
  from assms(3) have r: "do_calls (snd (handleMessage tx t d)) ?s0 = Inr s'"
    by (auto simp: trans_handleMessage_def split: sum.splits)
  from do_calls_tracked [OF t0 _ d r] show ?thesis by simp
qed

lemma RunTransaction_tracked:
  assumes "timer_tracked s" and "tx_disciplined tx" and "RunTransaction tx t s = Inr s'"
  shows "timer_tracked s'"
proof (cases "running s \<and> currentTrans s = None")
  case True
  let ?s0 = "s\<lparr>currentTrans := Some t\<rparr>"
  from assms(1) have t0: "timer_tracked ?s0" by (simp add: timer_tracked_def)
  from True assms(3) have "trans_run tx t ?s0 = Inr s'" by (simp add: RunTransaction_def)
  from trans_run_tracked [OF t0 assms(2) this] show ?thesis .
next
  case False
  with assms(1,3) show ?thesis
    by (auto simp: RunTransaction_def timer_tracked_def split: if_splits option.splits)
qed

lemma RunQueuedTransaction_tracked:
  assumes "timer_tracked s" and "tx_disciplined tx" and "RunQueuedTransaction tx s = Inr s'"
  shows "timer_tracked s'"
proof (cases "running s")
  case True
  show ?thesis
  proof (cases "transactionQueue s")
    case Nil
    with True assms(1,3) show ?thesis
      by (auto simp: RunQueuedTransaction_def Let_def timer_tracked_def)
  next
    case (Cons t rest)
    let ?s1 = "s\<lparr>currentTrans := None, transactionQueue := rest\<rparr>"
    from assms(1) have t1: "timer_tracked ?s1" by (simp add: timer_tracked_def)
    from True Cons assms(3) have "RunTransaction tx t ?s1 = Inr s'"
      by (simp add: RunQueuedTransaction_def Let_def)
    from RunTransaction_tracked [OF t1 assms(2) this] show ?thesis .
  qed
next
  case False
  with assms(1,3) show ?thesis
    by (auto simp: RunQueuedTransaction_def Let_def serial_close_def timer_tracked_def
        split: option.splits)
qed

lemma SerialRead_tracked:
  assumes "timer_tracked s" and "tx_disciplined tx" and "SerialRead codes tx d s = Inr s'"
  shows "timer_tracked s'"
proof (cases "d = []")
  case True
  with assms show ?thesis by (simp add: SerialRead_def)
next
  case False
  with assms(3) obtain u s1 where o: "offer tx d s = Inr (u, s1)"
    by (auto simp: SerialRead_def split: sum.splits)
  have t1: "timer_tracked s1"
  proof (cases "currentTrans s")
    case None
    with o assms(1) show ?thesis by (simp add: offer_def)
  next
    case (Some t)
    with o have "trans_handleMessage tx t d s = Inr (u, s1)" by (simp add: offer_def)
    from handle_tracked [OF assms(1,2) this] show ?thesis .
  qed
  from assms(3) False o have "s' = s1 \<or> (\<exists>t. RunTransaction tx t s1 = Inr s')"
    by (auto simp: SerialRead_def split: if_splits)
  with t1 RunTransaction_tracked [OF t1 assms(2)] show ?thesis by auto
qed

lemma Timeout_tracked:
  assumes "timer_tracked s" and "tx_disciplined tx" and "Timeout tx s = Inr s'"
  shows "timer_tracked s'"
proof (cases "currentTrans s")
  case None
  with assms show ?thesis by (simp add: Timeout_def)
next
  case (Some t)
  with assms(3) obtain u where "trans_handleMessage tx t [] s = Inr (u, s')"
    by (auto simp: Timeout_def split: sum.splits)
  from handle_tracked [OF assms(1,2) this] show ?thesis .
qed

lemma step_tracked:
  assumes "timer_tracked s" and "tx_disciplined tx" and "step codes tx ev s = Inr s'"
  shows "timer_tracked s'"
proof (cases ev)
  case (E_on e cb)
  with assms(1,3) show ?thesis
    by (auto simp: SetEvent_def timer_tracked_def split: if_splits js_value.splits)
next
  case (E_start d)
  with assms(1,3) show ?thesis
    by (auto simp: Start_def Let_def timer_tracked_def split: if_splits)
next
  case E_stop
  with assms(1,3) show ?thesis
    by (auto simp: Stop_def serial_close_def timer_tracked_def split: option.splits)
next
  case (E_submit t)
  with assms RunTransaction_tracked [of s tx t s'] show ?thesis by simp
next
  case (E_data d)
  with assms SerialRead_tracked [of s tx codes d s'] show ?thesis
    by (auto split: if_splits)
next
  case (E_error e)
  with assms(1,3) show ?thesis
    by (auto simp: HandleError_def timer_tracked_def split: if_splits)
next
  case E_close
  with assms(1,3) show ?thesis
    by (auto simp: Stopped_def Let_def timer_tracked_def split: if_splits option.splits)
next
  case (E_written err)
  with assms(1,3) show ?thesis
    by (cases err) (auto simp: write_done_def timer_tracked_def)
next
  case (E_timer h)
  let ?s0 = "s\<lparr>armed := removeAll h (armed s)\<rparr>"
  have t0: "timer_tracked ?s0"
  proof (cases "armed s")
    case Nil
    then show ?thesis by (simp add: timer_tracked_def)
  next
    case (Cons z zs)
    with assms(1) have "zs = []" "timer s = Some z" by (auto simp: timer_tracked_def)
    with Cons show ?thesis by (simp add: timer_tracked_def)
  qed
  from E_timer assms(1,3) Timeout_tracked [OF t0 assms(2), of s'] show ?thesis
    by (auto split: if_splits)
next
  case (E_settled out)
  with assms RunQueuedTransaction_tracked [of s tx s'] show ?thesis
    by (cases out) (auto simp: run_settled_def)
qed

lemma exec_tracked:
  assumes "timer_tracked s" and "tx_disciplined tx" and "exec codes tx evs s = Inr s'"
  shows "timer_tracked s'"
  using assms
proof (induction evs arbitrary: s)
  case Nil
  then show ?case by simp
next
  case (Cons ev evs)
  from Cons.prems(3) obtain s1 where 1: "step codes tx ev s = Inr s1"
    and 2: "exec codes tx evs s1 = Inr s'"
    by (auto split: sum.splits)
  from step_tracked [OF Cons.prems(1,2) 1] have "timer_tracked s1" .
  from Cons.IH [OF this Cons.prems(2) 2] show ?case .
qed

lemma tracked_length: "timer_tracked s \<Longrightarrow> length (armed s) \<le> 1"
  by (auto simp: timer_tracked_def split: option.splits)

lemma careful_tx_disciplined: "tx_disciplined careful_tx"
  by (simp add: tx_disciplined_def careful_tx_def)

lemma retried_reached:
  "exec example_codes careful_tx [E_submit cmd_on, E_timer 0] started_engine =
     Inr retried_engine"
  by (simp add: example_defs engine_defs careful_tx_def retried_engine_def)

lemma wired_New: "wired NewCm11A"
proof -
  have "serial NewCm11A = None" "\<not> running NewCm11A" "currentTrans NewCm11A = None"
    "transactionQueue NewCm11A = []"
    by (simp_all add: NewCm11A_def)
  with dom_events_New show ?thesis by (simp add: wired_def)
qed

lemma wired_same:
  assumes "wired s" and "serial s' = serial s" and "events s' = events s"
    and "serial s = None \<longrightarrow>
           \<not> running s' \<and> currentTrans s' = None \<and> transactionQueue s' = []"
  shows "wired s'"
  using assms by (simp add: wired_def)

lemma RunTransaction_wired:
  assumes "wired s" and "RunTransaction tx t s = Inr s'"
  shows "wired s'"
proof (cases "running s")
  case True
  with assms(1) have p: "serial s \<noteq> None" by (auto simp: wired_def)
  show ?thesis
  proof (cases "currentTrans s")
    case None
    with True assms(2) have "trans_run tx t (s\<lparr>currentTrans := Some t\<rparr>) = Inr s'"
      by (simp add: RunTransaction_def)
    from trans_run_effect [OF this] p assms(1) show ?thesis
      by (auto simp: wired_def)
  next
    case (Some c)
    with True assms(2) have "s' = s\<lparr>transactionQueue := transactionQueue s @ [t]\<rparr>"
      by (simp add: RunTransaction_def)
    with p assms(1) show ?thesis by (auto simp: wired_def)
  qed
next
  case False
  with assms show ?thesis by (simp add: RunTransaction_def)
qed

lemma RunQueuedTransaction_wired:
  assumes "wired s" and "RunQueuedTransaction tx s = Inr s'"
  shows "wired s'"
proof (cases "running s")
  case True
  with assms(1) have p: "serial s \<noteq> None" by (auto simp: wired_def)
  show ?thesis
  proof (cases "transactionQueue s")
    case Nil
    with True assms(2) have "s' = s\<lparr>currentTrans := None\<rparr>"
      by (auto simp: RunQueuedTransaction_def Let_def)
    with p assms(1) show ?thesis by (auto simp: wired_def)
  next
    case (Cons t rest)
    let ?s1 = "s\<lparr>currentTrans := None, transactionQueue := rest\<rparr>"
    from p assms(1) have w: "wired ?s1" by (auto simp: wired_def)
    from True Cons assms(2) have "RunTransaction tx t ?s1 = Inr s'"
      by (simp add: RunQueuedTransaction_def Let_def)
    from RunTransaction_wired [OF w this] show ?thesis .
  qed
next
  case False
  with assms(2) have p: "serial s \<noteq> None"
    and "s' = s\<lparr>currentTrans := None, log := log s @ [PortClose]\<rparr>"
    by (auto simp: RunQueuedTransaction_def Let_def serial_close_def split: option.splits)
  with assms(1) show ?thesis by (auto simp: wired_def)
qed

lemma handle_wired:
  assumes "wired s" and "currentTrans s = Some t"
    and "trans_handleMessage tx t d s = Inr (u, s')"
  shows "wired s'"
proof -
  from assms(1,2) have p: "serial s \<noteq> None" by (auto simp: wired_def)
  from trans_handleMessage_effect [OF assms(3)] p assms(1) show ?thesis
    by (auto simp: wired_def)
qed

lemma SerialRead_wired:
  assumes "wired s" and "SerialRead codes tx d s = Inr s'"
  shows "wired s'"
proof (cases "d = []")
  case True
  with assms show ?thesis by (simp add: SerialRead_def)
next
  case False
  with assms(2) obtain u s1 where o: "offer tx d s = Inr (u, s1)"
    by (auto simp: SerialRead_def split: sum.splits)
  have w1: "wired s1"
  proof (cases "currentTrans s")
    case None
    with o assms(1) show ?thesis by (simp add: offer_def)
  next
    case (Some t)
    with o have "trans_handleMessage tx t d s = Inr (u, s1)" by (simp add: offer_def)
    from handle_wired [OF assms(1) Some this] show ?thesis .
  qed
  from assms(2) False o have "s' = s1 \<or> (\<exists>t. RunTransaction tx t s1 = Inr s')"
    by (auto simp: SerialRead_def split: if_splits)
  with w1 RunTransaction_wired [OF w1] show ?thesis by auto
qed

lemma Timeout_wired:
  assumes "wired s" and "Timeout tx s = Inr s'"
  shows "wired s'"
proof (cases "currentTrans s")
  case None
  with assms show ?thesis by (simp add: Timeout_def)
next
  case (Some t)
  with assms(2) obtain u where "trans_handleMessage tx t [] s = Inr (u, s')"
    by (auto simp: Timeout_def split: sum.splits)
  from handle_wired [OF assms(1) Some this] show ?thesis .
qed

lemma step_wired:
  assumes "wired s" and "step codes tx ev s = Inr s'"
  shows "wired s'"
proof (cases ev)
  case (E_on e cb)
  with assms(2) obtain f where "events s e \<noteq> None" and "s' = s\<lparr>events := (events s)(e \<mapsto> Some f)\<rparr>"
    by (auto simp: SetEvent_def split: if_splits js_value.splits)
  moreover from this(1) have "insert e (dom (events s)) = dom (events s)" by auto
  ultimately show ?thesis using assms(1) by (simp add: wired_def)
next
  case (E_start d)
  show ?thesis
  proof (cases "running s")
    case True
    with E_start assms show ?thesis by (simp add: Start_def)
  next
    case False
    with E_start assms(2) have "events s' = events s"
      and "serial s' = Some \<lparr>path = d, baudRate = 4800,
             listeners = [(''data'', Call_read), (''error'', Call_HandleError),
                          (''close'', Call_stopped)]\<rparr>"
      by (auto simp: Start_def)
    with assms(1) show ?thesis by (simp add: wired_def)
  qed
next
  case E_stop
  with assms(2) have "serial s' = serial s" "events s' = events s"
    "currentTrans s' = currentTrans s" "transactionQueue s' = transactionQueue s"
    "serial s = None \<longrightarrow> \<not> running s'"
    by (auto simp: Stop_def serial_close_def split: option.splits)
  with assms(1) show ?thesis by (simp add: wired_def)
next
  case (E_submit t)
  with assms RunTransaction_wired [of s tx t s'] show ?thesis by simp
next
  case (E_data d)
  with assms SerialRead_wired [of s codes tx d s'] show ?thesis
    by (auto split: if_splits)
next
  case (E_error e)
  with assms(2) have "serial s' = serial s" "events s' = events s" "running s' = running s"
    "currentTrans s' = currentTrans s" "transactionQueue s' = transactionQueue s"
    by (auto simp: HandleError_def split: if_splits)
  with assms(1) show ?thesis by (simp add: wired_def)
next
  case E_close
  with assms(2) have "serial s' = serial s" "events s' = events s"
    "running s' \<longrightarrow> running s"
    "currentTrans s' = currentTrans s" "transactionQueue s' = transactionQueue s"
    by (auto simp: Stopped_def Let_def split: if_splits option.splits)
  with assms(1) show ?thesis by (simp add: wired_def) blast
next
  case (E_written err)
  with assms(2) have "serial s' = serial s" "events s' = events s" "running s' = running s"
    "currentTrans s' = currentTrans s" "transactionQueue s' = transactionQueue s"
    by (auto simp: write_done_def split: if_splits)
  with assms(1) show ?thesis by (simp add: wired_def)
next
  case (E_timer h)
  have "wired (s\<lparr>armed := removeAll h (armed s)\<rparr>)"
    using assms(1) by (simp add: wired_def)
  from Timeout_wired [OF this, of tx s'] E_timer assms show ?thesis
    by (auto split: if_splits)
next
  case (E_settled out)
  with assms RunQueuedTransaction_wired [of s tx s'] show ?thesis
    by (cases out) (auto simp: run_settled_def)
qed

lemma exec_wired:
  assumes "wired s" and "exec codes tx evs s = Inr s'"
  shows "wired s'"
  using assms
proof (induction evs arbitrary: s)
  case Nil
  then show ?case by simp
next
  case (Cons ev evs)
  from Cons.prems(2) obtain s1 where 1: "step codes tx ev s = Inr s1"
    and 2: "exec codes tx evs s1 = Inr s'"
    by (auto split: sum.splits)
  from Cons.IH [OF step_wired [OF Cons.prems(1) 1] 2] show ?case .
qed

lemma reachable_wired:
  assumes "exec codes tx evs NewCm11A = Inr s"
  shows "dom (events s) = event_names"
    and "running s \<or> currentTrans s \<noteq> None \<Longrightarrow> serial s \<noteq> None"
    and "serial s \<noteq> None \<Longrightarrow> listens s ''close'' Call_stopped"
  using exec_wired [OF wired_New assms]
  by (auto simp: wired_def listens_def)

lemma step_sets_running_false:
  assumes "running s" and "step codes tx ev s = Inr s'" and "\<not> running s'"
  shows "ev = E_close \<or> (ev = E_stop \<and> currentTrans s \<noteq> None)"
proof (cases ev)
  case (E_on e cb)
  with assms show ?thesis
    by (auto simp: SetEvent_def split: if_splits js_value.splits)
next
  case (E_start d)
  with assms show ?thesis by (auto simp: Start_def)
next
  case E_stop
  with assms show ?thesis
    by (auto simp: Stop_def serial_close_def split: option.splits)
next
  case (E_submit t)
  with assms RunTransaction_running [of tx t s s'] show ?thesis by simp
next
  case (E_data d)
  with assms SerialRead_running [of codes tx d s s'] show ?thesis
    by (auto split: if_splits)
next
  case (E_error e)
  with assms show ?thesis by (auto simp: HandleError_def split: if_splits)
next
  case E_close
  then show ?thesis by simp
next
  case (E_written err)
  with assms show ?thesis by (auto simp: write_done_def split: if_splits)
next
  case (E_timer h)
  with assms Timeout_running [of tx "s\<lparr>armed := removeAll h (armed s)\<rparr>" s'] show ?thesis
    by (auto split: if_splits)
next
  case (E_settled out)
  with assms RunQueuedTransaction_running [of tx s s'] show ?thesis
    by (cases out) (auto simp: run_settled_def)
qed

lemma offer_quiet:
  assumes "offer tx d s = Inr (u, s')"
  shows "running s' = running s \<and> started (log s') = started (log s) \<and>
         transactionQueue s' = transactionQueue s"
proof (cases "currentTrans s")
  case None
  with assms show ?thesis by (simp add: offer_def)
next
  case (Some t)
  with assms have "trans_handleMessage tx t d s = Inr (u, s')" by (simp add: offer_def)
  from trans_handleMessage_effect [OF this] show ?thesis by (auto simp: started_append)
qed

lemma SerialRead_quiet:
  assumes "\<not> running s" and "SerialRead codes tx d s = Inr s'"
  shows "\<not> running s' \<and> started (log s') = started (log s) \<and>
         transactionQueue s' = transactionQueue s"
proof (cases "d = []")
  case True
  with assms show ?thesis by (simp add: SerialRead_def)
next
  case False
  with assms(2) obtain u s1 where o: "offer tx d s = Inr (u, s1)"
    by (auto simp: SerialRead_def split: sum.splits)
  from offer_quiet [OF o] assms(1) have q: "\<not> running s1"
    "started (log s1) = started (log s)" "transactionQueue s1 = transactionQueue s"
    by simp_all
  from q(1) have "\<And>t. RunTransaction tx t s1 = Inr s1" by (simp add: RunTransaction_def)
  with assms(2) False o have "s' = s1"
    by (auto simp: SerialRead_def split: if_splits)
  with q show ?thesis by simp
qed

lemma Timeout_quiet:
  assumes "Timeout tx s = Inr s'"
  shows "running s' = running s \<and> started (log s') = started (log s) \<and>
         transactionQueue s' = transactionQueue s"
proof (cases "currentTrans s")
  case None
  with assms show ?thesis by (simp add: Timeout_def)
next
  case (Some t)
  with assms obtain u where "trans_handleMessage tx t [] s = Inr (u, s')"
    by (auto simp: Timeout_def split: sum.splits)
  from trans_handleMessage_effect [OF this] show ?thesis by (auto simp: started_append)
qed

lemma step_quiet:
  assumes "\<not> running s" and "no_start ev" and "step codes tx ev s = Inr s'"
  shows "\<not> running s' \<and> started (log s') = started (log s) \<and>
         transactionQueue s' = transactionQueue s"
proof (cases ev)
  case (E_on e cb)
  with assms show ?thesis
    by (auto simp: SetEvent_def split: if_splits js_value.splits)
next
  case (E_start d)
  with assms(2) show ?thesis by simp
next
  case E_stop
  with assms show ?thesis
    by (auto simp: Stop_def serial_close_def started_append split: option.splits)
next
  case (E_submit t)
  with assms show ?thesis by (simp add: RunTransaction_def)
next
  case (E_data d)
  with assms SerialRead_quiet [of s codes tx d s'] show ?thesis
    by (auto split: if_splits)
next
  case (E_error e)
  with assms show ?thesis
    by (auto simp: HandleError_def started_append split: if_splits)
next
  case E_close
  with assms show ?thesis
    by (auto simp: Stopped_def Let_def started_append split: if_splits option.splits)
next
  case (E_written err)
  with assms show ?thesis
    by (auto simp: write_done_def started_append split: if_splits)
next
  case (E_timer h)
  with assms Timeout_quiet [of tx "s\<lparr>armed := removeAll h (armed s)\<rparr>" s'] show ?thesis
    by (auto split: if_splits)
next
  case (E_settled out)
  with assms show ?thesis
    by (cases out)
      (auto simp: run_settled_def RunQueuedTransaction_def Let_def serial_close_def
        started_append split: option.splits)
qed

lemma exec_quiet:
  assumes "\<not> running s" and "list_all no_start evs" and "exec codes tx evs s = Inr s'"
  shows "\<not> running s' \<and> started (log s') = started (log s) \<and>
         transactionQueue s' = transactionQueue s"
  using assms
proof (induction evs arbitrary: s)
  case Nil
  then show ?case by simp
next
  case (Cons ev evs)
  from Cons.prems(3) obtain s1 where 1: "step codes tx ev s = Inr s1"
    and 2: "exec codes tx evs s1 = Inr s'"
    by (auto split: sum.splits)
  from Cons.prems(2) have n: "no_start ev" and ns: "list_all no_start evs" by simp_all
  from step_quiet [OF Cons.prems(1) n 1] have q: "\<not> running s1"
    "started (log s1) = started (log s)" "transactionQueue s1 = transactionQueue s"
    by simp_all
  from Cons.IH [OF q(1) ns 2] q show ?case by simp
qed

lemma exec_append:
  "exec codes tx (as @ bs) s =
     (case exec codes tx as s of Inl e \<Rightarrow> Inl e | Inr s' \<Rightarrow> exec codes tx bs s')"
  by (induction as arbitrary: s) (auto split: sum.splits)

lemma restart_keeps_queue:
  assumes "currentTrans s = Some c" and "serial s \<noteq> None"
  shows "\<exists>s'. exec codes tx [E_stop, E_settled out, E_close, E_start device] s = Inr s' \<and>
           running s' \<and> serial s' \<noteq> None \<and> currentTrans s' = None \<and>
           transactionQueue s' = transactionQueue s \<and>
           started (log s') = started (log s)"
proof -
  let ?s2 = "s\<lparr>running := False, currentTrans := None, log := log s @ [PortClose]\<rparr>"
  from assms have a: "exec codes tx [E_stop, E_settled out] s = Inr ?s2"
    by (cases out)
      (auto simp: Stop_def run_settled_def RunQueuedTransaction_def serial_close_def Let_def)
  obtain s3 where c: "step codes tx E_close ?s2 = Inr s3"
    by (cases "listens ?s2 ''close'' Call_stopped") simp_all
  have q: "\<not> running s3" "currentTrans s3 = None"
    "transactionQueue s3 = transactionQueue s" "started (log s3) = started (log s)"
    using c by (auto simp: Stopped_def Let_def started_append split: if_splits option.splits)
  let ?s4 = "snd (Start device s3)"
  from q have r: "running ?s4" "serial ?s4 \<noteq> None" "currentTrans ?s4 = None"
    "transactionQueue ?s4 = transactionQueue s" "started (log ?s4) = started (log s)"
    by (simp_all add: Start_def started_append)
  have "exec codes tx ([E_stop, E_settled out] @ [E_close, E_start device]) s = Inr ?s4"
    unfolding exec_append using a c by simp
  with r show ?thesis by auto
qed

lemma overtaken:
  assumes "running s" and "serial s \<noteq> None" and "currentTrans s = None"
    and "transactionQueue s = q # rest"
  shows "\<exists>s'. exec codes tx [E_submit t, E_settled out] s = Inr s' \<and>
           currentTrans s' = Some q \<and> transactionQueue s' = rest \<and>
           started (log s') = started (log s) @ [t, q]"
proof -
  from RunTransaction_idle [OF assms(1,3,2), of tx t] obtain s1 l1 where
    1: "RunTransaction tx t s = Inr s1" "currentTrans s1 = Some t"
       "log s1 = log s @ RunCalled t # l1" "started l1 = []"
       "transactionQueue s1 = transactionQueue s" "running s1"
    by blast
  from trans_run_effect 1(1) assms have p1: "serial s1 \<noteq> None"
    by (auto simp: RunTransaction_def)
  let ?s0 = "s1\<lparr>currentTrans := None, transactionQueue := rest, currentTrans := Some q\<rparr>"
  from p1 have "serial ?s0 \<noteq> None" by simp
  from trans_run_total [OF this] obtain s2 where r: "trans_run tx q ?s0 = Inr s2" by blast
  have s: "run_settled tx out s1 = Inr s2"
    using 1 assms(4) r
    by (cases out)
      (simp_all add: run_settled_def RunQueuedTransaction_def RunTransaction_def Let_def)
  from trans_run_effect [OF r] 1 have
    "currentTrans s2 = Some q" "transactionQueue s2 = rest"
    "started (log s2) = started (log s) @ [t, q]"
    by (auto simp: started_append)
  with 1(1) s show ?thesis by simp
qed

section \<open>The claims\<close>

subsection \<open>Submitting a transaction\<close>

text \<open>
  C2. A transaction passed to \<open>runTransaction\<close> while the controller is not running is
  dropped: no error, and the state is the same. While the controller is running and no
  transaction is current, the transaction becomes the current one and its \<open>run\<close> is called
  at once (the next entry of the log). While another transaction is current, it is
  appended to the end of the queue and nothing else changes. (A controller that is
  running has a port, \<open>start\<close> being the only function that sets \<open>running\<close> to true.)
\<close>

theorem RunTransaction_submit:
  "(\<not> running s \<longrightarrow> RunTransaction tx t s = Inr s) \<and>
   (running s \<and> currentTrans s = None \<and> serial s \<noteq> None \<longrightarrow>
      (\<exists>s' l. RunTransaction tx t s = Inr s' \<and> currentTrans s' = Some t \<and>
         log s' = log s @ RunCalled t # l \<and> started l = [] \<and>
         transactionQueue s' = transactionQueue s \<and> running s')) \<and>
   (running s \<and> currentTrans s \<noteq> None \<longrightarrow>
      RunTransaction tx t s = Inr (s\<lparr>transactionQueue := transactionQueue s @ [t]\<rparr>))"
proof (intro conjI impI)
  assume "\<not> running s"
  then show "RunTransaction tx t s = Inr s" by (simp add: RunTransaction_def)
next
  assume a: "running s \<and> currentTrans s = None \<and> serial s \<noteq> None"
  then obtain s' where r: "trans_run tx t (s\<lparr>currentTrans := Some t\<rparr>) = Inr s'"
    using trans_run_total [of "s\<lparr>currentTrans := Some t\<rparr>" tx t] by auto
  from trans_run_effect [OF r] a r
  show "\<exists>s' l. RunTransaction tx t s = Inr s' \<and> currentTrans s' = Some t \<and>
         log s' = log s @ RunCalled t # l \<and> started l = [] \<and>
         transactionQueue s' = transactionQueue s \<and> running s'"
    by (auto simp: RunTransaction_def)
next
  assume "running s \<and> currentTrans s \<noteq> None"
  then show "RunTransaction tx t s = Inr (s\<lparr>transactionQueue := transactionQueue s @ [t]\<rparr>)"
    by (auto simp: RunTransaction_def)
qed

text \<open>The three cases on a new controller, a started one and a busy one.\<close>

theorem RunTransaction_submit_witness:
  "RunTransaction example_tx cmd_on NewCm11A = Inr NewCm11A \<and>
   (\<exists>s' l. RunTransaction example_tx cmd_on started_engine = Inr s' \<and>
      currentTrans s' = Some cmd_on \<and>
      log s' = log started_engine @ RunCalled cmd_on # l \<and> started l = [] \<and>
      transactionQueue s' = [] \<and> running s') \<and>
   RunTransaction example_tx cmd_off busy_engine = Inr queued_engine"
  using RunTransaction_submit [of NewCm11A example_tx cmd_on]
    RunTransaction_submit [of started_engine example_tx cmd_on]
    RunTransaction_submit [of busy_engine example_tx cmd_off]
  by (simp add: example_defs Start_def)

subsection \<open>Registering callbacks\<close>

text \<open>
  C8. \<open>on(event, callBack)\<close> throws when \<open>event\<close> is not one of the three names of the
  object \<open>events\<close>; it throws when the name is one of them and \<open>callBack\<close> is not a
  function; otherwise it stores the function in the slot of that name, whatever the slot
  held before, and changes nothing else of the controller.
\<close>

theorem SetEvent_register:
  assumes "dom (events s) = event_names"
  shows "(event \<notin> event_names \<longrightarrow>
            SetEvent event callBack s = Inl (Thrown (''Invalid event: '' @ event))) \<and>
         (event \<in> event_names \<and> (\<forall>f. callBack \<noteq> JFunction f) \<longrightarrow>
            SetEvent event callBack s = Inl (Thrown ''Expected function for callBack.'')) \<and>
         (event \<in> event_names \<and> callBack = JFunction f \<longrightarrow>
            SetEvent event callBack s = Inr (s\<lparr>events := (events s)(event \<mapsto> Some f)\<rparr>) \<and>
            dom ((events s)(event \<mapsto> Some f)) = event_names)"
proof -
  have a: "events s event = None \<longleftrightarrow> event \<notin> event_names"
    using assms domIff [of event "events s"] by auto
  show ?thesis
    using assms a by (cases callBack) (auto simp: SetEvent_def)
qed

text \<open>An unknown name, a string for a callback, and a registration on a new controller.\<close>

theorem SetEvent_register_witness:
  "SetEvent ''closed'' (JFunction 7) NewCm11A = Inl (Thrown ''Invalid event: closed'') \<and>
   SetEvent ''close'' (JString ''cb'') NewCm11A = Inl (Thrown ''Expected function for callBack.'') \<and>
   SetEvent ''close'' (JFunction 7) NewCm11A =
     Inr (NewCm11A\<lparr>events := (events NewCm11A)(''close'' \<mapsto> Some 7)\<rparr>)"
  using SetEvent_register [OF dom_events_New, of "''closed''" "JFunction 7" 7]
    SetEvent_register [OF dom_events_New, of "''close''" "JString ''cb''" 7]
    SetEvent_register [OF dom_events_New, of "''close''" "JFunction 7" 7]
  by (simp add: event_names_def)

subsection \<open>Starting\<close>

text \<open>
  C9. \<open>start(device)\<close> returns true and leaves the controller running. A controller that
  is not running gets a new port on \<open>device\<close> at 4800 baud with listeners for the data,
  error and close signals, and \<open>running\<close> becomes true; a running controller is left as
  it is (no port is opened). A second \<open>start\<close> changes nothing.
\<close>

theorem Start_idempotent:
  "fst (Start device s) = True \<and>
   running (snd (Start device s)) \<and>
   (running s \<longrightarrow> snd (Start device s) = s) \<and>
   (\<not> running s \<longrightarrow>
      snd (Start device s) =
        s\<lparr>serial := Some \<lparr>path = device, baudRate = 4800,
                         listeners = [(''data'', Call_read), (''error'', Call_HandleError),
                                      (''close'', Call_stopped)]\<rparr>,
          running := True,
          log := log s @ [PortOpened device 4800]\<rparr>) \<and>
   Start device' (snd (Start device s)) = (True, snd (Start device s))"
  by (simp add: Start_def Let_def)

text \<open>Starting a new controller, then starting it again on another device.\<close>

theorem Start_idempotent_witness:
  "Start ''/dev/ttyUSB0'' NewCm11A = (True, started_engine) \<and>
   running started_engine \<and>
   log started_engine = [PortOpened ''/dev/ttyUSB0'' 4800] \<and>
   Start ''/dev/ttyS1'' started_engine = (True, started_engine)"
  using Start_idempotent [of "''/dev/ttyUSB0''" NewCm11A "''/dev/ttyS1''"]
  by (simp add: started_engine_def NewCm11A_def Start_def)

subsection \<open>Completion of the current transaction\<close>




subsection \<open>Inbound bytes\<close>

text \<open>
  C3. \<open>read(data)\<close> ignores an empty chunk. A chunk that is not empty is first given to
  the current transaction, if there is one, through \<open>handleMessage\<close>, whose answer says
  whether the chunk was used; with no current transaction the chunk counts as not used.
  A used chunk is not looked at further. For a chunk that was not used, the first byte
  decides (the three markers being different bytes): the poll request marker submits
  one \<open>PollResponse\<close> built from the chunk, the power fail marker one \<open>SetClock\<close>, the
  EEPROM address marker one \<open>EepromAddress\<close> built from the chunk, each by one call of
  \<open>runTransaction\<close>; any other first byte submits nothing, and with no current
  transaction it leaves the state as it was, without an error.
\<close>

theorem SerialRead_routing:
  "SerialRead codes tx [] s = Inr s \<and>
   (currentTrans s = None \<longrightarrow> offer tx readData s = Inr (False, s)) \<and>
   (currentTrans s = Some t \<and> offer tx readData s = Inr (used, s1) \<longrightarrow>
      used = fst (handleMessage tx t readData) \<and>
      (\<exists>l. log s1 = log s @ HandleMessageCalled t readData # l \<and> started l = [])) \<and>
   (readData \<noteq> [] \<and> offer tx readData s = Inr (True, s1) \<longrightarrow>
      SerialRead codes tx readData s = Inr s1) \<and>
   (readData \<noteq> [] \<and> offer tx readData s = Inr (False, s1) \<and>
    distinct [POLL_REQUEST codes, POLL_POWER_FAIL codes, POLL_EEPROM_ADDRESS codes] \<longrightarrow>
      (hd readData = POLL_REQUEST codes \<longrightarrow>
         SerialRead codes tx readData s =
           RunTransaction tx (new_trans (PollResponse readData)) s1) \<and>
      (hd readData = POLL_POWER_FAIL codes \<longrightarrow>
         SerialRead codes tx readData s = RunTransaction tx (new_trans SetClock) s1) \<and>
      (hd readData = POLL_EEPROM_ADDRESS codes \<longrightarrow>
         SerialRead codes tx readData s =
           RunTransaction tx (new_trans (EepromAddress readData)) s1) \<and>
      (hd readData \<notin> {POLL_REQUEST codes, POLL_POWER_FAIL codes, POLL_EEPROM_ADDRESS codes} \<longrightarrow>
         SerialRead codes tx readData s = Inr s1)) \<and>
   (readData \<noteq> [] \<and> currentTrans s = None \<and>
    hd readData \<notin> {POLL_REQUEST codes, POLL_POWER_FAIL codes, POLL_EEPROM_ADDRESS codes} \<longrightarrow>
      SerialRead codes tx readData s = Inr s)"
proof (intro conjI impI)
  show "SerialRead codes tx [] s = Inr s" by (simp add: SerialRead_def)
next
  assume "currentTrans s = None"
  then show "offer tx readData s = Inr (False, s)" by (simp add: offer_def)
next
  assume a: "currentTrans s = Some t \<and> offer tx readData s = Inr (used, s1)"
  then have h: "trans_handleMessage tx t readData s = Inr (used, s1)" by (auto simp: offer_def)
  from trans_handleMessage_effect [OF h]
  show "used = fst (handleMessage tx t readData)"
    and "\<exists>l. log s1 = log s @ HandleMessageCalled t readData # l \<and> started l = []"
    by simp_all
next
  assume "readData \<noteq> [] \<and> offer tx readData s = Inr (True, s1)"
  then show "SerialRead codes tx readData s = Inr s1" by (simp add: SerialRead_def)
next
  assume a: "readData \<noteq> [] \<and> offer tx readData s = Inr (False, s1) \<and>
    distinct [POLL_REQUEST codes, POLL_POWER_FAIL codes, POLL_EEPROM_ADDRESS codes]"
  {
    assume "hd readData = POLL_REQUEST codes"
    with a show "SerialRead codes tx readData s =
        RunTransaction tx (new_trans (PollResponse readData)) s1"
      by (auto simp: SerialRead_def)
  next
    assume "hd readData = POLL_POWER_FAIL codes"
    with a show "SerialRead codes tx readData s = RunTransaction tx (new_trans SetClock) s1"
      by (auto simp: SerialRead_def)
  next
    assume "hd readData = POLL_EEPROM_ADDRESS codes"
    with a show "SerialRead codes tx readData s =
        RunTransaction tx (new_trans (EepromAddress readData)) s1"
      by (auto simp: SerialRead_def)
  next
    assume "hd readData \<notin>
      {POLL_REQUEST codes, POLL_POWER_FAIL codes, POLL_EEPROM_ADDRESS codes}"
    with a show "SerialRead codes tx readData s = Inr s1"
      by (auto simp: SerialRead_def)
  }
next
  assume "readData \<noteq> [] \<and> currentTrans s = None \<and>
    hd readData \<notin> {POLL_REQUEST codes, POLL_POWER_FAIL codes, POLL_EEPROM_ADDRESS codes}"
  then show "SerialRead codes tx readData s = Inr s"
    by (simp add: SerialRead_def offer_def)
qed

text \<open>
  The three markers and a noise byte on an idle controller; an acknowledgement that the
  current transaction uses; a poll marker that it declines, which is queued behind it.
\<close>

theorem SerialRead_routing_witness:
  "offer example_tx poll_chunk started_engine = Inr (False, started_engine) \<and>
   SerialRead example_codes example_tx poll_chunk started_engine =
     RunTransaction example_tx (new_trans (PollResponse poll_chunk)) started_engine \<and>
   SerialRead example_codes example_tx [165] started_engine =
     RunTransaction example_tx (new_trans SetClock) started_engine \<and>
   SerialRead example_codes example_tx [91, 3] started_engine =
     RunTransaction example_tx (new_trans (EepromAddress [91, 3])) started_engine \<and>
   SerialRead example_codes example_tx noise_chunk started_engine = Inr started_engine \<and>
   offer example_tx [0] busy_engine = Inr (True, acked_engine) \<and>
   SerialRead example_codes example_tx [0] busy_engine = Inr acked_engine \<and>
   offer example_tx poll_chunk busy_engine = Inr (False, polled_engine) \<and>
   SerialRead example_codes example_tx poll_chunk busy_engine =
     Inr (polled_engine\<lparr>transactionQueue := [new_trans (PollResponse poll_chunk)]\<rparr>)"
proof -
  have o1: "offer example_tx [0] busy_engine = Inr (True, acked_engine)"
    and o2: "offer example_tx poll_chunk busy_engine = Inr (False, polled_engine)"
    by (simp_all add: example_defs more_example_defs engine_defs)
  have r: "RunTransaction example_tx (new_trans (PollResponse poll_chunk)) polled_engine =
      Inr (polled_engine\<lparr>transactionQueue := [new_trans (PollResponse poll_chunk)]\<rparr>)"
    by (simp add: example_defs more_example_defs engine_defs)
  have c: "currentTrans started_engine = None" "currentTrans busy_engine = Some cmd_on"
    by (simp_all add: example_fields)
  show ?thesis
    using SerialRead_routing [of example_codes example_tx started_engine poll_chunk
        cmd_on False started_engine]
      SerialRead_routing [of example_codes example_tx started_engine "[165]"
        cmd_on False started_engine]
      SerialRead_routing [of example_codes example_tx started_engine "[91, 3]"
        cmd_on False started_engine]
      SerialRead_routing [of example_codes example_tx started_engine noise_chunk
        cmd_on False started_engine]
      SerialRead_routing [of example_codes example_tx busy_engine "[0]"
        cmd_on True acked_engine]
      SerialRead_routing [of example_codes example_tx busy_engine poll_chunk
        cmd_on False polled_engine]
      o1 o2 r c
    by (simp add: example_codes_def poll_chunk_def noise_chunk_def)
qed

subsection \<open>The close signal\<close>

text \<open>
  C6. The handler of the port's close signal sets \<open>running\<close> to false and calls the
  callback registered for \<open>close\<close>, if there is one, once with no arguments; with no
  callback registered it only sets \<open>running\<close> to false. In particular, on a controller
  with a port opened by \<open>start\<close> and no current transaction, registering a callback for
  \<open>close\<close>, calling \<open>stop\<close> and receiving the close signal of the port leaves
  \<open>running\<close> false, and what was done is one close of the port followed by one call of
  the callback.
\<close>

theorem close_signal:
  "running (Stopped s) = False \<and>
   (events s ''close'' = Some (Some f) \<longrightarrow>
      Stopped s = s\<lparr>running := False, log := log s @ [Invoked f []]\<rparr>) \<and>
   (events s ''close'' = Some None \<longrightarrow> Stopped s = s\<lparr>running := False\<rparr>) \<and>
   (events s ''close'' \<noteq> None \<and> currentTrans s = None \<and>
    listens s ''close'' Call_stopped \<longrightarrow>
      exec codes tx [E_on ''close'' (JFunction f), E_stop, E_close] s =
        Inr (s\<lparr>events := (events s)(''close'' \<mapsto> Some f), running := False,
               log := log s @ [PortClose, Invoked f []]\<rparr>))"
  by (auto simp: Stopped_def Let_def SetEvent_def Stop_def serial_close_def listens_def
      split: option.splits)

text \<open>
  A close signal with no callback for \<open>close\<close>, one with a callback, and the sequence
  \<open>on\<close>, \<open>stop\<close>, close signal on a started controller.
\<close>

theorem close_signal_witness:
  "Stopped listening_engine = listening_engine\<lparr>running := False\<rparr> \<and>
   Stopped (started_engine\<lparr>events := (events started_engine)(''close'' \<mapsto> Some 7)\<rparr>) =
     started_engine\<lparr>events := (events started_engine)(''close'' \<mapsto> Some 7),
       running := False, log := [PortOpened ''/dev/ttyUSB0'' 4800, Invoked 7 []]\<rparr> \<and>
   exec example_codes example_tx [E_on ''close'' (JFunction 7), E_stop, E_close]
       started_engine =
     Inr (started_engine\<lparr>events := (events started_engine)(''close'' \<mapsto> Some 7),
            running := False,
            log := [PortOpened ''/dev/ttyUSB0'' 4800, PortClose, Invoked 7 []]\<rparr>)"
  using close_signal [of listening_engine 7 example_codes example_tx]
    close_signal [of "started_engine\<lparr>events := (events started_engine)(''close'' \<mapsto> Some 7)\<rparr>"
      7 example_codes example_tx]
    close_signal [of started_engine 7 example_codes example_tx]
  by (simp add: example_defs more_example_defs Start_def listens_def)

subsection \<open>The unit status notification\<close>

text \<open>
  C7, as the code has it. \<open>notifyUnitStatus(x10Function, houseCode, level, units)\<close>
  calls the callback registered for \<open>unitStatus\<close> with one object whose fields are
  \<open>units\<close>, \<open>x10Function\<close> and \<open>level\<close>, and does nothing when no callback is
  registered. The argument \<open>houseCode\<close> is not used: the call is the same for every
  house code.
\<close>

theorem NotifyUnitStatus_payload:
  "(events s ''unitStatus'' = Some (Some f) \<longrightarrow>
      NotifyUnitStatus x10Function houseCode level units s =
        s\<lparr>log := log s @
            [Invoked f [JObject [(''units'', units), (''x10Function'', x10Function),
                                 (''level'', level)]]]\<rparr>) \<and>
   (events s ''unitStatus'' = Some None \<longrightarrow>
      NotifyUnitStatus x10Function houseCode level units s = s) \<and>
   NotifyUnitStatus x10Function houseCode level units s =
     NotifyUnitStatus x10Function houseCode' level units s"
  by (simp add: NotifyUnitStatus_def)

text \<open>A notification with a registered callback, and one without.\<close>

theorem NotifyUnitStatus_payload_witness:
  "NotifyUnitStatus (JNumber 2) (JNumber 6) JUndefined (JArray [JNumber 1]) listening_engine =
     listening_engine\<lparr>log := [PortOpened ''/dev/ttyUSB0'' 4800,
        Invoked 1 [JObject [(''units'', JArray [JNumber 1]), (''x10Function'', JNumber 2),
                            (''level'', JUndefined)]]]\<rparr> \<and>
   NotifyUnitStatus (JNumber 2) (JNumber 6) JUndefined (JArray [JNumber 1]) started_engine =
     started_engine"
  using NotifyUnitStatus_payload [of listening_engine 1 "JNumber 2" "JNumber 6" JUndefined
      "JArray [JNumber 1]" "JNumber 6"]
    NotifyUnitStatus_payload [of started_engine 1 "JNumber 2" "JNumber 6" JUndefined
      "JArray [JNumber 1]" "JNumber 6"]
  by (simp add: example_defs more_example_defs Start_def)

text \<open>
  C7 as stated fails: the listener is to receive the house code with the event. Two
  notifications that differ in the house code alone (6 and 14) call the listener with
  the same value, an object with the three fields \<open>units\<close>, \<open>x10Function\<close> and \<open>level\<close>.
\<close>

theorem NotifyUnitStatus_houseCode_counterexample:
  "NotifyUnitStatus (JNumber 2) (JNumber 6) JUndefined (JArray [JNumber 1]) listening_engine =
   NotifyUnitStatus (JNumber 2) (JNumber 14) JUndefined (JArray [JNumber 1]) listening_engine \<and>
   JNumber 6 \<noteq> JNumber 14 \<and>
   log (NotifyUnitStatus (JNumber 2) (JNumber 6) JUndefined (JArray [JNumber 1])
          listening_engine) =
     [PortOpened ''/dev/ttyUSB0'' 4800,
      Invoked 1 [JObject [(''units'', JArray [JNumber 1]), (''x10Function'', JNumber 2),
                          (''level'', JUndefined)]]]"
  by (simp add: example_defs more_example_defs Start_def NotifyUnitStatus_def)

subsection \<open>Stopping with no transaction in flight\<close>

text \<open>
  C10, as the code has it. \<open>stop()\<close> with no current transaction asks the port to
  close and changes nothing else: \<open>running\<close> keeps its value. A transaction submitted
  after such a \<open>stop\<close> on a running controller is accepted: it becomes the current one
  and its \<open>run\<close> is called. \<open>running\<close> is set to false in two places: by the
  handler of the close signal, and by \<open>stop()\<close> with a current transaction; no other
  event makes a running controller stop running. So, once a transaction has been
  accepted after the first \<open>stop\<close>, a second \<open>stop\<close> sets \<open>running\<close> to false
  with no close signal.
\<close>

theorem stop_idle_keeps_running:
  "(currentTrans s = None \<and> serial s \<noteq> None \<longrightarrow>
      Stop s = Inr (s\<lparr>log := log s @ [PortClose]\<rparr>)) \<and>
   (running s \<and> currentTrans s = None \<and> serial s \<noteq> None \<longrightarrow>
      (\<exists>s' l. exec codes tx [E_stop, E_submit t] s = Inr s' \<and> running s' \<and>
         currentTrans s' = Some t \<and>
         log s' = log s @ PortClose # RunCalled t # l \<and> started l = [])) \<and>
   running (Stopped s) = False \<and>
   (currentTrans s = Some c \<longrightarrow> Stop s = Inr (s\<lparr>running := False\<rparr>)) \<and>
   (running s \<and> step codes tx ev s = Inr s1 \<and> \<not> running s1 \<longrightarrow>
      ev = E_close \<or> (ev = E_stop \<and> currentTrans s \<noteq> None)) \<and>
   (running s \<and> currentTrans s = None \<and> serial s \<noteq> None \<longrightarrow>
      (\<exists>s'. exec codes tx [E_stop, E_submit t, E_stop] s = Inr s' \<and> \<not> running s' \<and>
         currentTrans s' = Some t))"
proof (intro conjI impI)
  assume "currentTrans s = None \<and> serial s \<noteq> None"
  then show "Stop s = Inr (s\<lparr>log := log s @ [PortClose]\<rparr>)"
    by (auto simp: Stop_def serial_close_def)
next
  assume a: "running s \<and> currentTrans s = None \<and> serial s \<noteq> None"
  let ?s1 = "s\<lparr>log := log s @ [PortClose]\<rparr>"
  from a have st: "Stop s = Inr ?s1" by (auto simp: Stop_def serial_close_def)
  from a have "running ?s1" "currentTrans ?s1 = None" "serial ?s1 \<noteq> None" by simp_all
  from RunTransaction_idle [OF this, of tx t] obtain s' l where
    "RunTransaction tx t ?s1 = Inr s'" "currentTrans s' = Some t"
    "log s' = log ?s1 @ RunCalled t # l" "started l = []" "running s'"
    by blast
  with st show "\<exists>s' l. exec codes tx [E_stop, E_submit t] s = Inr s' \<and> running s' \<and>
         currentTrans s' = Some t \<and>
         log s' = log s @ PortClose # RunCalled t # l \<and> started l = []"
    by simp
next
  show "running (Stopped s) = False"
    by (simp add: Stopped_def Let_def split: option.splits)
next
  assume "currentTrans s = Some c"
  then show "Stop s = Inr (s\<lparr>running := False\<rparr>)" by (simp add: Stop_def)
next
  assume "running s \<and> step codes tx ev s = Inr s1 \<and> \<not> running s1"
  then have "running s" "step codes tx ev s = Inr s1" "\<not> running s1" by simp_all
  then show "ev = E_close \<or> (ev = E_stop \<and> currentTrans s \<noteq> None)"
    by (rule step_sets_running_false)
next
  assume a: "running s \<and> currentTrans s = None \<and> serial s \<noteq> None"
  let ?s1 = "s\<lparr>log := log s @ [PortClose]\<rparr>"
  from a have st: "Stop s = Inr ?s1" by (auto simp: Stop_def serial_close_def)
  from a have "running ?s1" "currentTrans ?s1 = None" "serial ?s1 \<noteq> None" by simp_all
  from RunTransaction_idle [OF this, of tx t] obtain s2 where
    2: "RunTransaction tx t ?s1 = Inr s2" "currentTrans s2 = Some t"
    by blast
  then have "Stop s2 = Inr (s2\<lparr>running := False\<rparr>)" by (simp add: Stop_def)
  with st 2 show "\<exists>s'. exec codes tx [E_stop, E_submit t, E_stop] s = Inr s' \<and>
      \<not> running s' \<and> currentTrans s' = Some t"
    by simp
qed

text \<open>
  \<open>stop\<close> on a started idle controller, followed by a submission and a second
  \<open>stop\<close>; \<open>stop\<close> on a busy controller.
\<close>

theorem stop_idle_keeps_running_witness:
  "Stop started_engine = Inr (started_engine\<lparr>log := log started_engine @ [PortClose]\<rparr>) \<and>
   (\<exists>s' l. exec example_codes example_tx [E_stop, E_submit cmd_on] started_engine = Inr s' \<and>
      running s' \<and> currentTrans s' = Some cmd_on \<and>
      log s' = log started_engine @ PortClose # RunCalled cmd_on # l \<and> started l = []) \<and>
   running (Stopped started_engine) = False \<and>
   Stop busy_engine = Inr (busy_engine\<lparr>running := False\<rparr>) \<and>
   step example_codes example_tx E_stop busy_engine = Inr (busy_engine\<lparr>running := False\<rparr>) \<and>
   currentTrans busy_engine = Some cmd_on \<and>
   (\<exists>s'. exec example_codes example_tx [E_stop, E_submit cmd_on, E_stop] started_engine =
        Inr s' \<and>
      \<not> running s' \<and> currentTrans s' = Some cmd_on)"
proof -
  have b: "step example_codes example_tx E_stop busy_engine =
      Inr (busy_engine\<lparr>running := False\<rparr>)"
    by (simp add: Stop_def example_fields)
  show ?thesis
    using stop_idle_keeps_running [of started_engine example_codes example_tx cmd_on cmd_on
        E_stop "started_engine"]
      stop_idle_keeps_running [of busy_engine example_codes example_tx cmd_on cmd_on
        E_stop "busy_engine\<lparr>running := False\<rparr>"]
      b
    by (simp del: exec.simps step.simps add: example_fields)
qed

text \<open>
  C10 as stated fails: \<open>running\<close> is to stay true until the close signal, whose
  handler is to be the one place that sets it to false. \<open>stop\<close> on a started idle
  controller, a submission and a second \<open>stop\<close> leave \<open>running\<close> false, and no
  close signal was received; \<open>stop\<close> on a busy controller sets it to false itself.
\<close>

theorem stop_in_window_counterexample:
  "map_sum id running
     (exec example_codes example_tx [E_stop, E_submit cmd_on, E_stop] started_engine) =
     Inr False \<and>
   running started_engine \<and>
   Stop busy_engine = Inr (busy_engine\<lparr>running := False\<rparr>) \<and>
   running busy_engine"
  by (simp add: example_defs engine_defs)

subsection \<open>The response timer\<close>

text \<open>
  C4, as the code has it. \<open>write(data, timer)\<close> with a timer arms a new timer and puts
  its handle in the slot \<open>timer\<close>; it cancels nothing, so a timer armed before stays
  armed. \<open>cancelTimer()\<close> clears the timer whose handle is in the slot and empties the
  slot. Hence, when the transactions call \<open>cancelTimer\<close> before every \<open>write\<close> that
  arms a timer, then through any sequence of events at most one timer is armed, and it
  is the one in the slot.
\<close>

theorem timer_discipline:
  "(serial s \<noteq> None \<longrightarrow>
      (\<exists>s'. SerialWrite d (Some ms) s = Inr s' \<and> timer s' = Some (next_timer s) \<and>
         armed s' = armed s @ [next_timer s])) \<and>
   timer (CancelTimer s) = None \<and>
   (timer s = Some h \<longrightarrow> armed (CancelTimer s) = removeAll h (armed s)) \<and>
   (timer_tracked s \<and> tx_disciplined tx \<and> exec codes tx evs s = Inr s1 \<longrightarrow>
      timer_tracked s1 \<and> length (armed s1) \<le> 1)"
proof (intro conjI impI)
  assume "serial s \<noteq> None"
  from SerialWrite_total [OF this, of d "Some ms"] obtain s' where
    w: "SerialWrite d (Some ms) s = Inr s'" by blast
  from SerialWrite_timer(2) [OF w, of ms] w
  show "\<exists>s'. SerialWrite d (Some ms) s = Inr s' \<and> timer s' = Some (next_timer s) \<and>
         armed s' = armed s @ [next_timer s]"
    by simp
next
  show "timer (CancelTimer s) = None" by (simp add: CancelTimer_timer)
next
  assume "timer s = Some h"
  then show "armed (CancelTimer s) = removeAll h (armed s)" by (simp add: CancelTimer_timer)
next
  assume a: "timer_tracked s \<and> tx_disciplined tx \<and> exec codes tx evs s = Inr s1"
  then have "timer_tracked s" "tx_disciplined tx" "exec codes tx evs s = Inr s1" by simp_all
  from exec_tracked [OF this] show "timer_tracked s1" .
  then show "length (armed s1) \<le> 1" by (rule tracked_length)
qed

text \<open>
  A write on a busy controller, which leaves two timers armed; a cancel; and a
  transaction that cancels before it writes again after a timeout.
\<close>

theorem timer_discipline_witness:
  "(\<exists>s'. SerialWrite [4, 102] (Some 1000) busy_engine = Inr s' \<and> timer s' = Some 1 \<and>
      armed s' = [0, 1]) \<and>
   armed (CancelTimer busy_engine) = [] \<and>
   exec example_codes careful_tx [E_submit cmd_on, E_timer 0] started_engine =
     Inr retried_engine \<and>
   timer_tracked retried_engine \<and> armed retried_engine = [1]"
  using timer_discipline [of busy_engine "[4, 102]" 1000 0 careful_tx example_codes "[]"
      busy_engine]
    timer_discipline [of started_engine "[4, 102]" 1000 0 careful_tx example_codes
      "[E_submit cmd_on, E_timer 0]" retried_engine]
    careful_tx_disciplined retried_reached
  by (simp add: example_defs retried_engine_def timer_tracked_def Start_def)

text \<open>
  C4 as stated fails: a write that arms a timer is to cancel the one armed before. Two
  writes in a row leave the timers 0 and 1 armed, with only 1 in the slot. And when a
  transaction completes without a call of \<open>cancelTimer\<close>, the timer 0 that was armed for
  it stays armed beside timer 1 of the next transaction, and fires against that one:
  its \<open>handleMessage\<close> is called with no bytes.
\<close>

theorem write_keeps_old_timer_counterexample:
  "do_calls [Call_write [4, 102] (Some 1000), Call_write [4, 102] (Some 1000)]
       started_engine =
     Inr (started_engine\<lparr>timer := Some 1, armed := [0, 1], next_timer := 2,
            log := [PortOpened ''/dev/ttyUSB0'' 4800, PortWrite [4, 102],
                    SetTimeout 0 1000, PortWrite [4, 102], SetTimeout 1 1000]\<rparr>) \<and>
   map_sum id armed
     (exec example_codes example_tx
        [E_submit cmd_on, E_settled Fulfilled, E_submit cmd_off] started_engine) =
     Inr [0, 1] \<and>
   map_sum id log
     (exec example_codes example_tx
        [E_submit cmd_on, E_settled Fulfilled, E_submit cmd_off, E_timer 0]
        started_engine) =
     Inr [PortOpened ''/dev/ttyUSB0'' 4800,
          RunCalled cmd_on, PortWrite [4, 102], SetTimeout 0 1000,
          RunCalled cmd_off, PortWrite [4, 102], SetTimeout 1 1000,
          HandleMessageCalled cmd_off [], ClearTimeout 1]"
  by (simp add: example_defs engine_defs)

subsection \<open>Stopping with a transaction in flight\<close>

text \<open>
  C5, as the code has it. \<open>stop()\<close> with a current transaction only sets \<open>running\<close>
  to false: the transaction stays the current one, and inbound bytes are still given to
  it. While \<open>running\<close> is false, whatever is submitted or received (any events but
  \<open>start\<close>), no transaction is started and the queue stays as it is; when the current
  transaction completes, the port is closed. The waiting transactions are not removed:
  they are still in the queue after the close signal and a later \<open>start\<close>, with no
  transaction current; the next transaction submitted is then started ahead of them, and
  when it completes the head of the old queue is started. \<open>stop()\<close> with no current
  transaction closes the port at once.
\<close>

theorem graceful_stop:
  "(currentTrans s = Some c \<longrightarrow> Stop s = Inr (s\<lparr>running := False\<rparr>)) \<and>
   (currentTrans s = Some c \<and> serial s \<noteq> None \<longrightarrow>
      (\<exists>u s' l. offer tx bytes (s\<lparr>running := False\<rparr>) = Inr (u, s') \<and>
         log s' = log s @ HandleMessageCalled c bytes # l)) \<and>
   (\<not> running s \<and> list_all no_start evs \<and> exec codes tx evs s = Inr s1 \<longrightarrow>
      \<not> running s1 \<and> started (log s1) = started (log s) \<and>
      transactionQueue s1 = transactionQueue s) \<and>
   (currentTrans s = Some c \<and> serial s \<noteq> None \<longrightarrow>
      exec codes tx [E_stop, E_submit t, E_settled out] s =
        Inr (s\<lparr>running := False, currentTrans := None, log := log s @ [PortClose]\<rparr>)) \<and>
   (currentTrans s = Some c \<and> serial s \<noteq> None \<longrightarrow>
      (\<exists>s'. exec codes tx [E_stop, E_settled out, E_close, E_start device] s = Inr s' \<and>
         running s' \<and> currentTrans s' = None \<and>
         transactionQueue s' = transactionQueue s \<and>
         started (log s') = started (log s))) \<and>
   (currentTrans s = Some c \<and> serial s \<noteq> None \<and> transactionQueue s = q # rest \<longrightarrow>
      (\<exists>s'. exec codes tx
           [E_stop, E_settled out, E_close, E_start device, E_submit t, E_settled out'] s =
           Inr s' \<and>
         currentTrans s' = Some q \<and> transactionQueue s' = rest \<and>
         started (log s') = started (log s) @ [t, q])) \<and>
   (currentTrans s = None \<and> serial s \<noteq> None \<longrightarrow>
      Stop s = Inr (s\<lparr>log := log s @ [PortClose]\<rparr>))"
proof (intro conjI impI)
  assume "currentTrans s = Some c"
  then show "Stop s = Inr (s\<lparr>running := False\<rparr>)" by (simp add: Stop_def)
next
  assume a: "currentTrans s = Some c \<and> serial s \<noteq> None"
  let ?s = "s\<lparr>running := False\<rparr>"
  from a have "serial ?s \<noteq> None" by simp
  from trans_handleMessage_total [OF this, of tx c bytes] obtain u s' where
    h: "trans_handleMessage tx c bytes ?s = Inr (u, s')" by blast
  from trans_handleMessage_effect [OF h] h a
  show "\<exists>u s' l. offer tx bytes ?s = Inr (u, s') \<and>
         log s' = log s @ HandleMessageCalled c bytes # l"
    by (auto simp: offer_def)
next
  assume "\<not> running s \<and> list_all no_start evs \<and> exec codes tx evs s = Inr s1"
  then have "\<not> running s" "list_all no_start evs" "exec codes tx evs s = Inr s1"
    by simp_all
  from exec_quiet [OF this]
  show "\<not> running s1" and "started (log s1) = started (log s)"
    and "transactionQueue s1 = transactionQueue s"
    by simp_all
next
  assume "currentTrans s = Some c \<and> serial s \<noteq> None"
  then show "exec codes tx [E_stop, E_submit t, E_settled out] s =
      Inr (s\<lparr>running := False, currentTrans := None, log := log s @ [PortClose]\<rparr>)"
    by (cases out)
      (auto simp: Stop_def RunTransaction_def run_settled_def RunQueuedTransaction_def
        serial_close_def Let_def)
next
  assume "currentTrans s = Some c \<and> serial s \<noteq> None"
  then have "currentTrans s = Some c" "serial s \<noteq> None" by simp_all
  from restart_keeps_queue [OF this, of codes tx out device]
  show "\<exists>s'. exec codes tx [E_stop, E_settled out, E_close, E_start device] s = Inr s' \<and>
         running s' \<and> currentTrans s' = None \<and>
         transactionQueue s' = transactionQueue s \<and>
         started (log s') = started (log s)"
    by blast
next
  assume a: "currentTrans s = Some c \<and> serial s \<noteq> None \<and> transactionQueue s = q # rest"
  then have "currentTrans s = Some c" "serial s \<noteq> None" by simp_all
  from restart_keeps_queue [OF this, of codes tx out device] obtain s4 where
    4: "exec codes tx [E_stop, E_settled out, E_close, E_start device] s = Inr s4"
       "running s4" "serial s4 \<noteq> None" "currentTrans s4 = None"
       "transactionQueue s4 = transactionQueue s" "started (log s4) = started (log s)"
    by blast
  from 4(5) a have "transactionQueue s4 = q # rest" by simp
  from overtaken [OF 4(2,3,4) this, of codes tx t out'] obtain s6 where
    6: "exec codes tx [E_submit t, E_settled out'] s4 = Inr s6"
       "currentTrans s6 = Some q" "transactionQueue s6 = rest"
       "started (log s6) = started (log s4) @ [t, q]"
    by blast
  have "exec codes tx
      ([E_stop, E_settled out, E_close, E_start device] @ [E_submit t, E_settled out']) s =
      Inr s6"
    unfolding exec_append using 4(1) 6(1) by simp
  with 6 4(6)
  show "\<exists>s'. exec codes tx
           [E_stop, E_settled out, E_close, E_start device, E_submit t, E_settled out'] s =
           Inr s' \<and>
         currentTrans s' = Some q \<and> transactionQueue s' = rest \<and>
         started (log s') = started (log s) @ [t, q]"
    by auto
next
  assume "currentTrans s = None \<and> serial s \<noteq> None"
  then show "Stop s = Inr (s\<lparr>log := log s @ [PortClose]\<rparr>)"
    by (auto simp: Stop_def serial_close_def)
qed

text \<open>
  \<open>stop\<close> with one transaction in flight and one waiting; an acknowledgement, a
  submission and a poll marker while not running; the completion; the close signal, a
  new \<open>start\<close>, a submission and its completion; \<open>stop\<close> on an idle controller.
\<close>

theorem graceful_stop_witness:
  "Stop queued_engine = Inr (queued_engine\<lparr>running := False\<rparr>) \<and>
   (\<exists>u s' l. offer example_tx [0] (queued_engine\<lparr>running := False\<rparr>) = Inr (u, s') \<and>
      log s' = log queued_engine @ HandleMessageCalled cmd_on [0] # l) \<and>
   exec example_codes example_tx [E_submit cmd_status, E_data poll_chunk]
       (queued_engine\<lparr>running := False\<rparr>) =
     Inr (polled_engine\<lparr>running := False, transactionQueue := [cmd_off]\<rparr>) \<and>
   started (log (polled_engine\<lparr>running := False, transactionQueue := [cmd_off]\<rparr>)) =
     started (log queued_engine) \<and>
   exec example_codes example_tx [E_stop, E_submit cmd_status, E_settled Rejected]
       queued_engine =
     Inr (queued_engine\<lparr>running := False, currentTrans := None,
            log := log queued_engine @ [PortClose]\<rparr>) \<and>
   (\<exists>s'. exec example_codes example_tx
        [E_stop, E_settled Rejected, E_close, E_start ''/dev/ttyUSB0''] queued_engine =
        Inr s' \<and>
      running s' \<and> currentTrans s' = None \<and> transactionQueue s' = [cmd_off] \<and>
      started (log s') = started (log queued_engine)) \<and>
   (\<exists>s'. exec example_codes example_tx
        [E_stop, E_settled Rejected, E_close, E_start ''/dev/ttyUSB0'', E_submit cmd_status,
         E_settled Fulfilled] queued_engine = Inr s' \<and>
      currentTrans s' = Some cmd_off \<and> transactionQueue s' = [] \<and>
      started (log s') = started (log queued_engine) @ [cmd_status, cmd_off]) \<and>
   Stop started_engine = Inr (started_engine\<lparr>log := log started_engine @ [PortClose]\<rparr>)"
proof -
  have c: "currentTrans queued_engine = Some cmd_on"
    by (simp add: queued_engine_def example_fields)
  have n: "\<not> running (queued_engine\<lparr>running := False\<rparr>)"
    "list_all no_start [E_submit cmd_status, E_data poll_chunk]"
    by simp_all
  have x: "exec example_codes example_tx [E_submit cmd_status, E_data poll_chunk]
       (queued_engine\<lparr>running := False\<rparr>) =
     Inr (polled_engine\<lparr>running := False, transactionQueue := [cmd_off]\<rparr>)"
    by (simp add: example_defs more_example_defs engine_defs)
  show ?thesis
    using graceful_stop [of queued_engine cmd_on example_tx "[0]"
        "[]" example_codes queued_engine
        cmd_status Rejected "''/dev/ttyUSB0''" cmd_off "[]" Fulfilled]
      graceful_stop [of "queued_engine\<lparr>running := False\<rparr>" cmd_on example_tx "[0]"
        "[E_submit cmd_status, E_data poll_chunk]" example_codes
        "polled_engine\<lparr>running := False, transactionQueue := [cmd_off]\<rparr>"
        cmd_status Rejected "''/dev/ttyUSB0''" cmd_off "[]" Fulfilled]
      graceful_stop [of started_engine cmd_on example_tx "[0]"
        "[]" example_codes started_engine
        cmd_status Rejected "''/dev/ttyUSB0''" cmd_off "[]" Fulfilled]
      c n x
    by (simp del: exec.simps add: example_fields)
qed

text \<open>
  C5 as stated fails: the waiting transactions are to be discarded. After \<open>start\<close>, two
  submissions, \<open>stop\<close> and the completion of the first, the second is still in the
  queue; and after the close signal, a new \<open>start\<close>, a third submission and its
  completion, the second is started.
\<close>

theorem stop_keeps_queue_counterexample:
  "map_sum id transactionQueue
     (exec example_codes example_tx
        [E_start ''/dev/ttyUSB0'', E_submit cmd_on, E_submit cmd_off, E_stop,
         E_settled Fulfilled] NewCm11A) = Inr [cmd_off] \<and>
   map_sum id currentTrans
     (exec example_codes example_tx
        [E_start ''/dev/ttyUSB0'', E_submit cmd_on, E_submit cmd_off, E_stop,
         E_settled Fulfilled, E_close, E_start ''/dev/ttyUSB0'', E_submit cmd_status,
         E_settled Fulfilled] NewCm11A) = Inr (Some cmd_off)"
  by (simp add: example_defs more_example_defs engine_defs)

end
